theory Spec2Isabelle
  imports Complex_Main
begin

section \<open>Data model (types.ts)\<close>

text \<open>
  The TypeScript interfaces of \<^verbatim>\<open>types.ts\<close> become records, the string union
  \<^verbatim>\<open>BillingCycle\<close> a datatype. A JavaScript \<^verbatim>\<open>number\<close> that the user enters is a finite
  value and is modelled as a \<^typ>\<open>real\<close>: arithmetic is exact, so rounding, overflow and
  the sign of zero are not part of the model. The field \<^verbatim>\<open>id\<close> is called \<open>id_v\<close> and
  \<^verbatim>\<open>notes\<close> is called \<open>notes_v\<close>, since the plain names are taken in Isabelle. The
  record \<^verbatim>\<open>Record<string, VariantAssumptions>\<close> is a partial map from the keys the object
  holds itself. The rounding of doubles and the lookup of an id that names a property
  every JavaScript object inherits (such as \<^verbatim>\<open>constructor\<close>) are in the section on the
  callback in JavaScript's own numbers. A string is the list of its bytes in UTF-8.
\<close>

datatype BillingCycle = Monthly | Annual

record PricingVariant =
  id_v :: string
  name :: string
  price :: real
  billingCycle :: BillingCycle
  notes_v :: string
  isControl :: bool

record VariantAssumptions =
  variantId :: string
  trafficSplit :: real
  convRate :: real
  churnRate :: real

record GlobalAssumptions =
  monthlyTraffic :: real
  perVariantAssumptions :: "string \<rightharpoonup> VariantAssumptions"

record VariantResult =
  variantId :: string
  name :: string
  visitors :: real
  conversions :: real
  revenue :: real
  arpu :: real
  rpv :: real
  isRevenueLeader :: bool
  isRPVLeader :: bool

record SimulationOutput =
  results :: "VariantResult list"
  trafficSplitTotal :: real

section \<open>JavaScript numbers with their special values\<close>

text \<open>
  \<^verbatim>\<open>Math.max()\<close> of no arguments is \<^verbatim>\<open>-Infinity\<close>, and the divisions of the insight
  generator are not guarded, so they can produce \<^verbatim>\<open>Infinity\<close> and \<^verbatim>\<open>NaN\<close>. Such
  intermediate values are a finite real or one of the three special values, with the
  arithmetic and the comparisons of ECMAScript on them (every comparison with
  \<^verbatim>\<open>NaN\<close> is false). A zero divisor is taken as \<^verbatim>\<open>+0\<close>.
\<close>

datatype jsnum = Fin real | PosInf | NegInf | NaN

fun js_lt :: "jsnum \<Rightarrow> jsnum \<Rightarrow> bool" where
  "js_lt NaN _ = False"
| "js_lt _ NaN = False"
| "js_lt (Fin a) (Fin b) = (a < b)"
| "js_lt (Fin a) PosInf = True"
| "js_lt (Fin a) NegInf = False"
| "js_lt PosInf _ = False"
| "js_lt NegInf (Fin b) = True"
| "js_lt NegInf PosInf = True"
| "js_lt NegInf NegInf = False"

definition js_gt :: "jsnum \<Rightarrow> jsnum \<Rightarrow> bool" where
  "js_gt a b = js_lt b a"

fun js_eq :: "jsnum \<Rightarrow> jsnum \<Rightarrow> bool" where
  "js_eq (Fin a) (Fin b) = (a = b)"
| "js_eq PosInf PosInf = True"
| "js_eq NegInf NegInf = True"
| "js_eq _ _ = False"

fun js_neg :: "jsnum \<Rightarrow> jsnum" where
  "js_neg (Fin a) = Fin (- a)"
| "js_neg PosInf = NegInf"
| "js_neg NegInf = PosInf"
| "js_neg NaN = NaN"

fun js_add :: "jsnum \<Rightarrow> jsnum \<Rightarrow> jsnum" where
  "js_add NaN _ = NaN"
| "js_add _ NaN = NaN"
| "js_add (Fin a) (Fin b) = Fin (a + b)"
| "js_add (Fin a) PosInf = PosInf"
| "js_add (Fin a) NegInf = NegInf"
| "js_add PosInf NegInf = NaN"
| "js_add PosInf _ = PosInf"
| "js_add NegInf PosInf = NaN"
| "js_add NegInf _ = NegInf"

definition js_sub :: "jsnum \<Rightarrow> jsnum \<Rightarrow> jsnum" where
  "js_sub a b = js_add a (js_neg b)"

definition js_inf_of_sign :: "real \<Rightarrow> jsnum" where
  "js_inf_of_sign s = (if s = 0 then NaN else if 0 < s then PosInf else NegInf)"

fun js_mul :: "jsnum \<Rightarrow> jsnum \<Rightarrow> jsnum" where
  "js_mul NaN _ = NaN"
| "js_mul _ NaN = NaN"
| "js_mul (Fin a) (Fin b) = Fin (a * b)"
| "js_mul (Fin a) PosInf = js_inf_of_sign a"
| "js_mul (Fin a) NegInf = js_inf_of_sign (- a)"
| "js_mul PosInf (Fin b) = js_inf_of_sign b"
| "js_mul NegInf (Fin b) = js_inf_of_sign (- b)"
| "js_mul PosInf PosInf = PosInf"
| "js_mul PosInf NegInf = NegInf"
| "js_mul NegInf PosInf = NegInf"
| "js_mul NegInf NegInf = PosInf"

fun js_div :: "jsnum \<Rightarrow> jsnum \<Rightarrow> jsnum" where
  "js_div NaN _ = NaN"
| "js_div _ NaN = NaN"
| "js_div (Fin a) (Fin b) = (if b = 0 then js_inf_of_sign a else Fin (a / b))"
| "js_div (Fin a) _ = Fin 0"
| "js_div PosInf (Fin b) = (if 0 \<le> b then PosInf else NegInf)"
| "js_div NegInf (Fin b) = (if 0 \<le> b then NegInf else PosInf)"
| "js_div _ _ = NaN"

text \<open>
  \<^verbatim>\<open>Math.max(...xs)\<close>: the running maximum starts at \<^verbatim>\<open>-Infinity\<close> and is replaced by
  every argument that is greater.
\<close>

definition Math_max :: "real list \<Rightarrow> jsnum" where
  "Math_max xs = fold (\<lambda>x highest. if js_lt highest (Fin x) then Fin x else highest) xs NegInf"

section \<open>The simulation engine (App.tsx, \<^verbatim>\<open>simulation\<close>)\<close>

text \<open>
  \<^verbatim>\<open>assumptions.perVariantAssumptions[v.id] || { variantId: v.id, trafficSplit: 0,
  convRate: 0, churnRate: 0 }\<close>: an entry is an object and so is truthy, and for a key
  that has no entry and names no property inherited from \<^verbatim>\<open>Object.prototype\<close> the
  default is taken. \<open>lookupAssumptions\<close> looks at the record's own keys only, which is
  the whole lookup for the ids \<open>v1\<close>, \<open>v2\<close>, \<open>v3\<close> of the application; \<open>getProperty\<close>
  below adds the inherited names.
\<close>

definition lookupAssumptions :: "GlobalAssumptions \<Rightarrow> PricingVariant \<Rightarrow> VariantAssumptions" where
  "lookupAssumptions assumptions v =
     (case perVariantAssumptions assumptions (id_v v) of
        Some va \<Rightarrow> va
      | None \<Rightarrow> \<lparr>VariantAssumptions.variantId = id_v v, trafficSplit = 0, convRate = 0,
                  churnRate = 0\<rparr>)"

text \<open>
  The body of the callback of \<^verbatim>\<open>variants.map\<close>, without the update of the total, with
  its arithmetic in exact reals.
\<close>

definition variantResult :: "GlobalAssumptions \<Rightarrow> PricingVariant \<Rightarrow> VariantResult" where
  "variantResult assumptions v =
     (let va = lookupAssumptions assumptions v;
          visitors = monthlyTraffic assumptions * (trafficSplit va / 100);
          conversions = visitors * (convRate va / 100);
          rawRevenue = conversions * price v;
          normalizedMonthlyRevenue =
            (if billingCycle v = Annual then rawRevenue / 12 else rawRevenue);
          arpu = (if conversions > 0
                  then (if billingCycle v = Annual then price v / 12 else price v)
                  else 0);
          rpv = (if visitors > 0 then normalizedMonthlyRevenue / visitors else 0)
      in \<lparr>VariantResult.variantId = id_v v,
          VariantResult.name = PricingVariant.name v,
          visitors = visitors,
          conversions = conversions,
          revenue = normalizedMonthlyRevenue,
          arpu = arpu,
          rpv = rpv,
          isRevenueLeader = False,
          isRPVLeader = False\<rparr>)"

text \<open>
  \<^verbatim>\<open>variants.map\<close> with its side effect on \<^verbatim>\<open>trafficSplitTotal\<close>: the total is
  passed along the list and returned with the results.
\<close>

fun mapVariants ::
  "GlobalAssumptions \<Rightarrow> PricingVariant list \<Rightarrow> real \<Rightarrow> VariantResult list \<times> real" where
  "mapVariants assumptions [] splitTotal = ([], splitTotal)"
| "mapVariants assumptions (v # vs) splitTotal =
     (let va = lookupAssumptions assumptions v;
          splitTotal' = splitTotal + trafficSplit va;
          r = variantResult assumptions v;
          (rs, splitTotal'') = mapVariants assumptions vs splitTotal'
      in (r # rs, splitTotal''))"

text \<open>The callback of \<^verbatim>\<open>results.forEach\<close>: two assignments, each under its own test.\<close>

definition flagLeaders :: "jsnum \<Rightarrow> jsnum \<Rightarrow> VariantResult \<Rightarrow> VariantResult" where
  "flagLeaders maxRev maxRPV r =
     (let r1 = (if js_eq (Fin (revenue r)) maxRev \<and> js_gt maxRev (Fin 0)
                then r\<lparr>isRevenueLeader := True\<rparr> else r);
          r2 = (if js_eq (Fin (rpv r1)) maxRPV \<and> js_gt maxRPV (Fin 0)
                then r1\<lparr>isRPVLeader := True\<rparr> else r1)
      in r2)"

definition simulation :: "PricingVariant list \<Rightarrow> GlobalAssumptions \<Rightarrow> SimulationOutput" where
  "simulation variants assumptions =
     (let (results0, splitTotal) = mapVariants assumptions variants 0;
          results1 =
            (if length results0 > 0
             then (let maxRev = Math_max (map revenue results0);
                       maxRPV = Math_max (map rpv results0)
                   in map (flagLeaders maxRev maxRPV) results0)
             else results0)
      in \<lparr>results = results1, trafficSplitTotal = splitTotal\<rparr>)"

section \<open>The callback in JavaScript's own numbers\<close>

text \<open>
  The engine above computes in exact reals and looks an id up among the keys the record
  holds itself. This section has the numeric part of the same callback as JavaScript
  evaluates it: the lookup goes through the prototype chain, a field read from a value
  that has no such field is \<^verbatim>\<open>undefined\<close> and counts as \<^verbatim>\<open>NaN\<close>, and the result of every
  arithmetic operation is rounded by the parameter \<open>rnd\<close>. With \<open>rnd = Fin\<close> nothing is
  rounded; \<open>binary64\<close> rounds to the nearest IEEE double.
\<close>

text \<open>
  \<^verbatim>\<open>assumptions.perVariantAssumptions[key]\<close> on a plain object: the entry under a key of
  its own, else the property of that name that every object inherits from
  \<^verbatim>\<open>Object.prototype\<close> (a function or an object, so truthy), else \<^verbatim>\<open>undefined\<close>.
\<close>

datatype property = Own VariantAssumptions | Inherited | Absent

definition objectPrototypeNames :: "string list" where
  "objectPrototypeNames =
     [''constructor'', ''hasOwnProperty'', ''isPrototypeOf'', ''propertyIsEnumerable'',
      ''toLocaleString'', ''toString'', ''valueOf'', ''__proto__'', ''__defineGetter__'',
      ''__defineSetter__'', ''__lookupGetter__'', ''__lookupSetter__'']"

definition getProperty :: "GlobalAssumptions \<Rightarrow> string \<Rightarrow> property" where
  "getProperty assumptions key =
     (case perVariantAssumptions assumptions key of
        Some va \<Rightarrow> Own va
      | None \<Rightarrow> if key \<in> set objectPrototypeNames then Inherited else Absent)"

text \<open>
  A numeric field of \<^verbatim>\<open>lookup || default\<close>: the entry's field, 0 from the default when
  the lookup is \<^verbatim>\<open>undefined\<close>, and \<^verbatim>\<open>undefined\<close>, in arithmetic \<^verbatim>\<open>NaN\<close>, when the lookup
  gave an inherited property and the default was not taken.
\<close>

definition numberField :: "(VariantAssumptions \<Rightarrow> real) \<Rightarrow> property \<Rightarrow> jsnum" where
  "numberField field p =
     (case p of Own va \<Rightarrow> Fin (field va) | Absent \<Rightarrow> Fin 0 | Inherited \<Rightarrow> NaN)"

text \<open>
  Rounding to the nearest double, ties to the even significand: a number other than 0 is
  scaled by a power of two to a significand of 53 bits (fewer below \<open>2^-1022\<close>, where
  the exponent stays at its least value), rounded to an integer and scaled back; from
  \<open>2^1024\<close> on the rounded number is an infinity. The sign of zero is not kept.
\<close>

fun bit_length :: "nat \<Rightarrow> nat" where
  "bit_length n = (if n = 0 then 0 else Suc (bit_length (n div 2)))"

declare bit_length.simps [simp del]

definition floor_log2 :: "real \<Rightarrow> int" where
  "floor_log2 x =
     (if 1 \<le> x then int (bit_length (nat \<lfloor>x\<rfloor>)) - 1
      else - int (bit_length (nat \<lceil>1 / x\<rceil> - 1)))"

definition round_even :: "real \<Rightarrow> int" where
  "round_even x =
     (let f = \<lfloor>x\<rfloor>; d = x - of_int f
      in if d < 1 / 2 then f else if 1 / 2 < d then f + 1 else if even f then f else f + 1)"

definition scale2 :: "int \<Rightarrow> real \<Rightarrow> real" where
  "scale2 e x = (if 0 \<le> e then x * 2 ^ nat e else x / 2 ^ nat (- e))"

definition nearest_double :: "real \<Rightarrow> real" where
  "nearest_double x =
     (if x = 0 then 0
      else (let e = max (floor_log2 \<bar>x\<bar> - 52) (- 1074)
            in sgn x * scale2 e (of_int (round_even (scale2 (- e) \<bar>x\<bar>)))))"

definition binary64 :: "real \<Rightarrow> jsnum" where
  "binary64 x =
     (let y = nearest_double x
      in if 2 ^ 1024 \<le> \<bar>y\<bar> then (if 0 < y then PosInf else NegInf) else Fin y)"

definition rounded :: "(real \<Rightarrow> jsnum) \<Rightarrow> jsnum \<Rightarrow> jsnum" where
  "rounded rnd x = (case x of Fin r \<Rightarrow> rnd r | PosInf \<Rightarrow> PosInf | NegInf \<Rightarrow> NegInf | NaN \<Rightarrow> NaN)"

text \<open>
  The numbers of the callback of \<^verbatim>\<open>variants.map\<close>, line by line: \<open>addend\<close> is what
  \<^verbatim>\<open>trafficSplitTotal += va.trafficSplit\<close> adds.
\<close>

record VariantNumbers =
  addend :: jsnum
  visitorsN :: jsnum
  conversionsN :: jsnum
  revenueN :: jsnum
  arpuN :: jsnum
  rpvN :: jsnum

definition variantNumbers ::
  "(real \<Rightarrow> jsnum) \<Rightarrow> GlobalAssumptions \<Rightarrow> PricingVariant \<Rightarrow> VariantNumbers" where
  "variantNumbers rnd assumptions v =
     (let va = getProperty assumptions (id_v v);
          split = numberField trafficSplit va;
          rate = numberField convRate va;
          visitors = rounded rnd (js_mul (Fin (monthlyTraffic assumptions))
                                         (rounded rnd (js_div split (Fin 100))));
          conversions = rounded rnd (js_mul visitors (rounded rnd (js_div rate (Fin 100))));
          rawRevenue = rounded rnd (js_mul conversions (Fin (price v)));
          normalizedMonthlyRevenue =
            (if billingCycle v = Annual then rounded rnd (js_div rawRevenue (Fin 12))
             else rawRevenue);
          arpu = (if js_gt conversions (Fin 0)
                  then (if billingCycle v = Annual
                        then rounded rnd (js_div (Fin (price v)) (Fin 12)) else Fin (price v))
                  else Fin 0);
          rpv = (if js_gt visitors (Fin 0)
                 then rounded rnd (js_div normalizedMonthlyRevenue visitors) else Fin 0)
      in \<lparr>addend = split, visitorsN = visitors, conversionsN = conversions,
          revenueN = normalizedMonthlyRevenue, arpuN = arpu, rpvN = rpv\<rparr>)"

text \<open>
  \<^verbatim>\<open>trafficSplitTotal\<close> after the callback has run over the variants: it starts at 0 and
  \<^verbatim>\<open>+=\<close> adds the variant's split to it.
\<close>

definition trafficSplitTotalN ::
  "(real \<Rightarrow> jsnum) \<Rightarrow> GlobalAssumptions \<Rightarrow> PricingVariant list \<Rightarrow> jsnum" where
  "trafficSplitTotalN rnd assumptions vs =
     fold (\<lambda>v splitTotal.
             rounded rnd (js_add splitTotal (addend (variantNumbers rnd assumptions v))))
          vs (Fin 0)"

section \<open>Rendering a number (ECMAScript \<^verbatim>\<open>Number.prototype.toFixed\<close>)\<close>

definition digit_char :: "nat \<Rightarrow> char" where
  "digit_char d = ''0123456789'' ! (d mod 10)"

fun decimal_digits :: "nat \<Rightarrow> string" where
  "decimal_digits n =
     (if n < 10 then [digit_char n] else decimal_digits (n div 10) @ [digit_char (n mod 10)])"

declare decimal_digits.simps [simp del]

text \<open>
  \<^verbatim>\<open>x.toFixed(f)\<close> as the standard defines it: a value that is not finite is printed by
  name; otherwise the sign is split off and, below \<open>10^21\<close>, the integer \<open>n\<close> nearest
  to \<open>x * 10^f\<close> (the larger of two) is printed with a point before its last \<open>f\<close>
  digits. From \<open>10^21\<close> on the standard prints the number in its default form, which
  depends on the floating-point representation: that function is the parameter
  \<open>numberToString\<close>.
\<close>

definition toFixed :: "(real \<Rightarrow> string) \<Rightarrow> jsnum \<Rightarrow> nat \<Rightarrow> string" where
  "toFixed numberToString x f =
     (case x of
        NaN \<Rightarrow> ''NaN''
      | PosInf \<Rightarrow> ''Infinity''
      | NegInf \<Rightarrow> ''-Infinity''
      | Fin r \<Rightarrow>
          (let s = (if r < 0 then ''-'' else '''');
               y = \<bar>r\<bar>
           in if 10 ^ 21 \<le> y then s @ numberToString y
              else (let n = nat \<lfloor>y * 10 ^ f + 1 / 2\<rfloor>;
                        m = decimal_digits n;
                        m' = (if f \<noteq> 0 \<and> length m \<le> f
                              then replicate (f + 1 - length m) (CHR ''0'') @ m else m);
                        k = length m'
                    in if f \<noteq> 0 then s @ take (k - f) m' @ ''.'' @ drop (k - f) m'
                       else s @ m')))"

section \<open>The insight generator (App.tsx, \<^verbatim>\<open>experimentInsight\<close>)\<close>

definition awaiting_msg :: string where
  "awaiting_msg = ''Awaiting simulation data...''"

definition control_best_msg :: string where
  "control_best_msg =
     ''The Control variant remains the most efficient strategy. Test variants have not yet demonstrated a significant uplift in Revenue Per Visitor (RPV).''"

definition volume_clause :: string where
  "volume_clause =
     ''It improves conversion volume significantly, successfully offsetting the lower price point/ARPU.''"

definition arpu_clause :: string where
  "arpu_clause =
     ''High ARPU is driving the success here, though it comes at the cost of a lower conversion rate compared to the baseline.''"

text \<open>The dash of the third clause is U+2014, written as its three bytes in UTF-8.\<close>

definition expansion_clause :: string where
  "expansion_clause =
     ''It manages to increase both individual customer value and overall conversion''
     @ [CHR 0xE2, CHR 0x80, CHR 0x94] @ ''a highly efficient expansion strategy.''"

text \<open>
  The part of \<^verbatim>\<open>experimentInsight\<close> after its two early returns: the lift, the
  difference of the conversion rates, the sentence and the qualifying clause. The two
  numbers are computed from the exact results without rounding, and a divisor 0 is
  \<^verbatim>\<open>+0\<close>, which is what the guard of \<open>rpv\<close> returns for a variant without visitors.
\<close>

definition winnerInsight :: "(real \<Rightarrow> string) \<Rightarrow> VariantResult \<Rightarrow> VariantResult \<Rightarrow> string" where
  "winnerInsight numberToString leader control =
     (let lift = js_mul (js_div (js_sub (Fin (rpv leader)) (Fin (rpv control)))
                                (Fin (rpv control))) (Fin 100);
          convDiff =
            js_mul (js_sub (js_div (Fin (conversions leader)) (Fin (visitors leader)))
                           (js_div (Fin (conversions control)) (Fin (visitors control))))
                   (Fin 100);
          text = VariantResult.name leader @ '' is the winner with a ''
                 @ toFixed numberToString lift 1
                 @ ''% efficiency lift over Control. ''
      in if js_gt convDiff (Fin 0) \<and> arpu leader < arpu control
           then text @ volume_clause
         else if js_lt convDiff (Fin 0) \<and> arpu leader > arpu control
           then text @ arpu_clause
         else if js_gt convDiff (Fin 0) \<and> arpu leader \<ge> arpu control
           then text @ expansion_clause
         else text)"

definition experimentInsight :: "(real \<Rightarrow> string) \<Rightarrow> SimulationOutput \<Rightarrow> string" where
  "experimentInsight numberToString sim =
     (case find isRPVLeader (results sim) of
        None \<Rightarrow> awaiting_msg
      | Some leader \<Rightarrow>
          (case find (\<lambda>r. VariantResult.variantId r = ''v1'') (results sim) of
             None \<Rightarrow> awaiting_msg
           | Some control \<Rightarrow>
               if VariantResult.variantId leader = ''v1'' then control_best_msg
               else winnerInsight numberToString leader control))"

section \<open>The initial state (App.tsx, the two \<^verbatim>\<open>useState\<close> calls)\<close>

definition defaultVariants :: "PricingVariant list" where
  "defaultVariants =
     [\<lparr>id_v = ''v1'', PricingVariant.name = ''Control'', price = 499, billingCycle = Monthly,
       notes_v = ''Current baseline'', isControl = True\<rparr>,
      \<lparr>id_v = ''v2'', PricingVariant.name = ''Test Variant 1'', price = 349,
       billingCycle = Monthly, notes_v = ''Testing lower price point'', isControl = False\<rparr>,
      \<lparr>id_v = ''v3'', PricingVariant.name = ''Test Variant 2'', price = 3990,
       billingCycle = Annual, notes_v = ''Testing annual commitment'', isControl = False\<rparr>]"

definition defaultAssumptions :: GlobalAssumptions where
  "defaultAssumptions =
     \<lparr>monthlyTraffic = 25000,
      perVariantAssumptions =
        [''v1'' \<mapsto> \<lparr>VariantAssumptions.variantId = ''v1'', trafficSplit = 34,
                    convRate = 42 / 10, churnRate = 5\<rparr>,
         ''v2'' \<mapsto> \<lparr>VariantAssumptions.variantId = ''v2'', trafficSplit = 33,
                    convRate = 61 / 10, churnRate = 8\<rparr>,
         ''v3'' \<mapsto> \<lparr>VariantAssumptions.variantId = ''v3'', trafficSplit = 33,
                    convRate = 28 / 10, churnRate = 2\<rparr>]\<rparr>"

section \<open>Edits of the initial state used in the examples\<close>

text \<open>The three traffic-split sliders moved to 0.\<close>

definition allIdleAssumptions :: GlobalAssumptions where
  "allIdleAssumptions =
     \<lparr>monthlyTraffic = 25000,
      perVariantAssumptions =
        [''v1'' \<mapsto> \<lparr>VariantAssumptions.variantId = ''v1'', trafficSplit = 0,
                    convRate = 42 / 10, churnRate = 5\<rparr>,
         ''v2'' \<mapsto> \<lparr>VariantAssumptions.variantId = ''v2'', trafficSplit = 0,
                    convRate = 61 / 10, churnRate = 8\<rparr>,
         ''v3'' \<mapsto> \<lparr>VariantAssumptions.variantId = ''v3'', trafficSplit = 0,
                    convRate = 28 / 10, churnRate = 2\<rparr>]\<rparr>"

text \<open>The traffic-split slider of the control variant moved to 0.\<close>

definition controlIdleAssumptions :: GlobalAssumptions where
  "controlIdleAssumptions =
     defaultAssumptions\<lparr>perVariantAssumptions :=
       (perVariantAssumptions defaultAssumptions)
         (''v1'' \<mapsto> \<lparr>VariantAssumptions.variantId = ''v1'', trafficSplit = 0,
                      convRate = 42 / 10, churnRate = 5\<rparr>)\<rparr>"

text \<open>The price of the first test variant lowered to 100.\<close>

definition cheapTestVariants :: "PricingVariant list" where
  "cheapTestVariants =
     [\<lparr>id_v = ''v1'', PricingVariant.name = ''Control'', price = 499, billingCycle = Monthly,
       notes_v = ''Current baseline'', isControl = True\<rparr>,
      \<lparr>id_v = ''v2'', PricingVariant.name = ''Test Variant 1'', price = 100,
       billingCycle = Monthly, notes_v = ''Testing lower price point'', isControl = False\<rparr>,
      \<lparr>id_v = ''v3'', PricingVariant.name = ''Test Variant 2'', price = 3990,
       billingCycle = Annual, notes_v = ''Testing annual commitment'', isControl = False\<rparr>]"

text \<open>The annual test variant offered monthly at a twelfth of its price.\<close>

definition monthlyTwelfthVariants :: "PricingVariant list" where
  "monthlyTwelfthVariants =
     [\<lparr>id_v = ''v1'', PricingVariant.name = ''Control'', price = 499, billingCycle = Monthly,
       notes_v = ''Current baseline'', isControl = True\<rparr>,
      \<lparr>id_v = ''v2'', PricingVariant.name = ''Test Variant 1'', price = 349,
       billingCycle = Monthly, notes_v = ''Testing lower price point'', isControl = False\<rparr>,
      \<lparr>id_v = ''v3'', PricingVariant.name = ''Test Variant 2'', price = 3990 / 12,
       billingCycle = Monthly, notes_v = ''Testing annual commitment'', isControl = False\<rparr>]"

text \<open>
  Both test variants at a split of 33 and a conversion rate of 3.6, the number the
  slider's string \<^verbatim>\<open>3.6\<close> denotes; the first priced 100 a month, the second 1200 a year.
\<close>

definition twelfthAssumptions :: GlobalAssumptions where
  "twelfthAssumptions =
     \<lparr>monthlyTraffic = 25000,
      perVariantAssumptions =
        [''v1'' \<mapsto> \<lparr>VariantAssumptions.variantId = ''v1'', trafficSplit = 34,
                    convRate = nearest_double (42 / 10), churnRate = 5\<rparr>,
         ''v2'' \<mapsto> \<lparr>VariantAssumptions.variantId = ''v2'', trafficSplit = 33,
                    convRate = nearest_double (36 / 10), churnRate = 8\<rparr>,
         ''v3'' \<mapsto> \<lparr>VariantAssumptions.variantId = ''v3'', trafficSplit = 33,
                    convRate = nearest_double (36 / 10), churnRate = 2\<rparr>]\<rparr>"

definition monthly100 :: PricingVariant where
  "monthly100 =
     \<lparr>id_v = ''v2'', PricingVariant.name = ''Test Variant 1'', price = 100,
      billingCycle = Monthly, notes_v = ''Testing lower price point'', isControl = False\<rparr>"

definition annual1200 :: PricingVariant where
  "annual1200 =
     \<lparr>id_v = ''v3'', PricingVariant.name = ''Test Variant 2'', price = 1200,
      billingCycle = Annual, notes_v = ''Testing annual commitment'', isControl = False\<rparr>"



section \<open>The engine as a map over the variants\<close>

text \<open>
  The state-passing loop returns the callback's results in order and adds up the traffic
  splits; \<^verbatim>\<open>Math.max\<close> of a non-empty list is its greatest element.
\<close>

lemma mapVariants_fst: "fst (mapVariants a vs t) = map (variantResult a) vs"
  by (induction vs arbitrary: t) (simp_all add: Let_def split_beta)

lemma mapVariants_snd:
  "snd (mapVariants a vs t) = t + sum_list (map (\<lambda>v. trafficSplit (lookupAssumptions a v)) vs)"
  by (induction vs arbitrary: t) (simp_all add: Let_def split_beta)

lemma mapVariants_eq:
  "mapVariants a vs t =
     (map (variantResult a) vs, t + sum_list (map (\<lambda>v. trafficSplit (lookupAssumptions a v)) vs))"
  by (rule prod_eqI) (simp_all only: mapVariants_fst mapVariants_snd fst_conv snd_conv)

lemma fold_highest_Fin:
  "fold (\<lambda>x highest. if js_lt highest (Fin x) then Fin x else highest) xs (Fin m) = Fin (fold max xs m)"
  by (induction xs arbitrary: m) (auto simp: max_def)

lemma Math_max_Cons: "Math_max (x # xs) = Fin (Max (set (x # xs)))"
proof -
  have "Math_max (x # xs) = Fin (fold max xs x)"
    by (simp add: Math_max_def fold_highest_Fin)
  also have "fold max xs x = Max (set (x # xs))"
    by (rule Max.set_eq_fold [symmetric])
  finally show ?thesis .
qed

lemma Math_max_nonempty: "xs \<noteq> [] \<Longrightarrow> Math_max xs = Fin (Max (set xs))"
proof (cases xs)
  case Nil
  assume "xs \<noteq> []"
  with Nil show ?thesis by simp
next
  case (Cons y ys)
  then show ?thesis by (simp only: Math_max_Cons)
qed

lemma flagLeaders_Fin:
  "flagLeaders (Fin mr) (Fin mp) r =
     r\<lparr>isRevenueLeader := (revenue r = mr \<and> 0 < mr) \<or> isRevenueLeader r,
       isRPVLeader := (rpv r = mp \<and> 0 < mp) \<or> isRPVLeader r\<rparr>"
  by (cases r) (auto simp: flagLeaders_def js_gt_def Let_def)

lemma variantResult_flags:
  "isRevenueLeader (variantResult a v) = False" "isRPVLeader (variantResult a v) = False"
  by (simp_all add: variantResult_def Let_def)

lemma variantResult_fields:
  "VariantResult.variantId (variantResult a v) = id_v v"
  "VariantResult.name (variantResult a v) = PricingVariant.name v"
  "visitors (variantResult a v) = monthlyTraffic a * (trafficSplit (lookupAssumptions a v) / 100)"
  "conversions (variantResult a v) =
     visitors (variantResult a v) * (convRate (lookupAssumptions a v) / 100)"
  "revenue (variantResult a v) =
     (if billingCycle v = Annual then conversions (variantResult a v) * price v / 12
      else conversions (variantResult a v) * price v)"
  "arpu (variantResult a v) =
     (if 0 < conversions (variantResult a v)
      then (if billingCycle v = Annual then price v / 12 else price v) else 0)"
  "rpv (variantResult a v) =
     (if 0 < visitors (variantResult a v)
      then revenue (variantResult a v) / visitors (variantResult a v) else 0)"
  by (simp_all add: variantResult_def Let_def)

lemma results_simulation_Nil: "simulation [] a = \<lparr>results = [], trafficSplitTotal = 0\<rparr>"
  by (simp add: simulation_def)

lemma results_simulation:
  "results (simulation vs a) =
     map (\<lambda>r. r\<lparr>isRevenueLeader := (revenue r = Max (revenue ` set (map (variantResult a) vs))
                                      \<and> 0 < Max (revenue ` set (map (variantResult a) vs))),
                 isRPVLeader := (rpv r = Max (rpv ` set (map (variantResult a) vs))
                                  \<and> 0 < Max (rpv ` set (map (variantResult a) vs)))\<rparr>)
         (map (variantResult a) vs)"
proof (cases vs)
  case Nil
  then show ?thesis by (simp add: results_simulation_Nil)
next
  case (Cons v vs')
  define rs0 where "rs0 = map (variantResult a) vs"
  have ne: "map revenue rs0 \<noteq> []" "map rpv rs0 \<noteq> []"
    using Cons by (simp_all add: rs0_def)
  have mr: "Math_max (map revenue rs0) = Fin (Max (revenue ` set rs0))"
    using Math_max_nonempty[OF ne(1)] by simp
  have mp: "Math_max (map rpv rs0) = Fin (Max (rpv ` set rs0))"
    using Math_max_nonempty[OF ne(2)] by simp
  have flags: "\<And>r. r \<in> set rs0 \<Longrightarrow> \<not> isRevenueLeader r \<and> \<not> isRPVLeader r"
    by (auto simp: rs0_def variantResult_flags)
  have "results (simulation vs a) =
      map (flagLeaders (Math_max (map revenue rs0)) (Math_max (map rpv rs0))) rs0"
    using Cons mapVariants_fst[of a vs 0]
    by (simp add: simulation_def split_beta Let_def rs0_def del: mapVariants.simps)
  also have "\<dots> = map (\<lambda>r. r\<lparr>isRevenueLeader := (revenue r = Max (revenue ` set rs0)
                                      \<and> 0 < Max (revenue ` set rs0)),
                 isRPVLeader := (rpv r = Max (rpv ` set rs0)
                                  \<and> 0 < Max (rpv ` set rs0))\<rparr>) rs0"
    unfolding mr mp flagLeaders_Fin using flags by (intro map_cong refl) simp
  finally show ?thesis unfolding rs0_def .
qed

lemma trafficSplitTotal_simulation:
  "trafficSplitTotal (simulation vs a) = sum_list (map (\<lambda>v. trafficSplit (lookupAssumptions a v)) vs)"
  using mapVariants_snd[of a vs 0] by (simp add: simulation_def split_beta Let_def)

lemma length_results_simulation: "length (results (simulation vs a)) = length vs"
  by (simp add: results_simulation)

lemma results_simulation_nth:
  assumes "i < length vs"
  shows "results (simulation vs a) ! i =
     (variantResult a (vs ! i))
       \<lparr>isRevenueLeader := (revenue (variantResult a (vs ! i)) = Max (revenue ` set (map (variantResult a) vs))
                                      \<and> 0 < Max (revenue ` set (map (variantResult a) vs))),
        isRPVLeader := (rpv (variantResult a (vs ! i)) = Max (rpv ` set (map (variantResult a) vs))
                                  \<and> 0 < Max (rpv ` set (map (variantResult a) vs)))\<rparr>"
  using assms by (simp add: results_simulation)

lemma simulation_nth_fields:
  assumes "i < length vs"
  shows "visitors (results (simulation vs a) ! i) = visitors (variantResult a (vs ! i))"
    and "conversions (results (simulation vs a) ! i) = conversions (variantResult a (vs ! i))"
    and "revenue (results (simulation vs a) ! i) = revenue (variantResult a (vs ! i))"
    and "arpu (results (simulation vs a) ! i) = arpu (variantResult a (vs ! i))"
    and "rpv (results (simulation vs a) ! i) = rpv (variantResult a (vs ! i))"
    and "VariantResult.variantId (results (simulation vs a) ! i) = id_v (vs ! i)"
    and "VariantResult.name (results (simulation vs a) ! i) = PricingVariant.name (vs ! i)"
  using assms by (simp_all add: results_simulation_nth variantResult_fields)

lemma results_mem:
  assumes "r \<in> set (results (simulation vs a))"
  obtains v where "v \<in> set vs"
    and "VariantResult.variantId r = id_v v"
    and "VariantResult.name r = PricingVariant.name v"
    and "visitors r = visitors (variantResult a v)"
    and "conversions r = conversions (variantResult a v)"
    and "revenue r = revenue (variantResult a v)"
    and "arpu r = arpu (variantResult a v)"
    and "rpv r = rpv (variantResult a v)"
proof -
  from assms obtain i where i: "i < length vs" and r: "r = results (simulation vs a) ! i"
    by (auto simp: in_set_conv_nth length_results_simulation)
  show thesis
    by (rule that[of "vs ! i"]) (simp_all add: i r simulation_nth_fields)
qed

lemma set_results_revenue:
  "revenue ` set (results (simulation vs a)) = revenue ` set (map (variantResult a) vs)"
  by (simp add: results_simulation image_image)

lemma set_results_rpv:
  "rpv ` set (results (simulation vs a)) = rpv ` set (map (variantResult a) vs)"
  by (simp add: results_simulation image_image)

lemma flags_of_member:
  assumes "r \<in> set (results (simulation vs a))"
  shows "isRevenueLeader r \<longleftrightarrow>
           revenue r = Max (revenue ` set (results (simulation vs a))) \<and>
           0 < Max (revenue ` set (results (simulation vs a)))"
    and "isRPVLeader r \<longleftrightarrow>
           rpv r = Max (rpv ` set (results (simulation vs a))) \<and>
           0 < Max (rpv ` set (results (simulation vs a)))"
proof -
  from assms obtain r0 where r0: "r0 \<in> set (map (variantResult a) vs)"
    and r: "r = r0\<lparr>isRevenueLeader := (revenue r0 = Max (revenue ` set (map (variantResult a) vs))
                                      \<and> 0 < Max (revenue ` set (map (variantResult a) vs))),
                 isRPVLeader := (rpv r0 = Max (rpv ` set (map (variantResult a) vs))
                                  \<and> 0 < Max (rpv ` set (map (variantResult a) vs)))\<rparr>"
    unfolding results_simulation[of vs a] by auto
  show "isRevenueLeader r \<longleftrightarrow>
           revenue r = Max (revenue ` set (results (simulation vs a))) \<and>
           0 < Max (revenue ` set (results (simulation vs a)))"
    unfolding set_results_revenue by (simp add: r)
  show "isRPVLeader r \<longleftrightarrow>
           rpv r = Max (rpv ` set (results (simulation vs a))) \<and>
           0 < Max (rpv ` set (results (simulation vs a)))"
    unfolding set_results_rpv by (simp add: r)
qed

section \<open>The engine on the example inputs\<close>

lemmas engine_eval = simulation_def variantResult_def lookupAssumptions_def
  Math_max_def flagLeaders_def js_gt_def Let_def

lemma default_results:
  "results (simulation defaultVariants defaultAssumptions) =
     [\<lparr>VariantResult.variantId = ''v1'', name = ''Control'', visitors = 8500,
       conversions = 357, revenue = 178143, arpu = 499, rpv = 10479 / 500,
       isRevenueLeader = True, isRPVLeader = False\<rparr>,
      \<lparr>VariantResult.variantId = ''v2'', name = ''Test Variant 1'', visitors = 8250,
       conversions = 2013 / 4, revenue = 702537 / 4, arpu = 349, rpv = 21289 / 1000,
       isRevenueLeader = False, isRPVLeader = True\<rparr>,
      \<lparr>VariantResult.variantId = ''v3'', name = ''Test Variant 2'', visitors = 8250,
       conversions = 231, revenue = 153615 / 2, arpu = 665 / 2, rpv = 931 / 100,
       isRevenueLeader = False, isRPVLeader = False\<rparr>]"
  by (simp add: engine_eval defaultVariants_def defaultAssumptions_def)

lemma controlIdle_results:
  "results (simulation defaultVariants controlIdleAssumptions) =
     [\<lparr>VariantResult.variantId = ''v1'', name = ''Control'', visitors = 0,
       conversions = 0, revenue = 0, arpu = 0, rpv = 0,
       isRevenueLeader = False, isRPVLeader = False\<rparr>,
      \<lparr>VariantResult.variantId = ''v2'', name = ''Test Variant 1'', visitors = 8250,
       conversions = 2013 / 4, revenue = 702537 / 4, arpu = 349, rpv = 21289 / 1000,
       isRevenueLeader = True, isRPVLeader = True\<rparr>,
      \<lparr>VariantResult.variantId = ''v3'', name = ''Test Variant 2'', visitors = 8250,
       conversions = 231, revenue = 153615 / 2, arpu = 665 / 2, rpv = 931 / 100,
       isRevenueLeader = False, isRPVLeader = False\<rparr>]"
  by (simp add: engine_eval defaultVariants_def defaultAssumptions_def controlIdleAssumptions_def)

lemma allIdle_results:
  "results (simulation defaultVariants allIdleAssumptions) =
     [\<lparr>VariantResult.variantId = ''v1'', name = ''Control'', visitors = 0,
       conversions = 0, revenue = 0, arpu = 0, rpv = 0,
       isRevenueLeader = False, isRPVLeader = False\<rparr>,
      \<lparr>VariantResult.variantId = ''v2'', name = ''Test Variant 1'', visitors = 0,
       conversions = 0, revenue = 0, arpu = 0, rpv = 0,
       isRevenueLeader = False, isRPVLeader = False\<rparr>,
      \<lparr>VariantResult.variantId = ''v3'', name = ''Test Variant 2'', visitors = 0,
       conversions = 0, revenue = 0, arpu = 0, rpv = 0,
       isRevenueLeader = False, isRPVLeader = False\<rparr>]"
  by (simp add: engine_eval defaultVariants_def allIdleAssumptions_def)

lemma cheapTest_results:
  "results (simulation cheapTestVariants defaultAssumptions) =
     [\<lparr>VariantResult.variantId = ''v1'', name = ''Control'', visitors = 8500,
       conversions = 357, revenue = 178143, arpu = 499, rpv = 10479 / 500,
       isRevenueLeader = True, isRPVLeader = True\<rparr>,
      \<lparr>VariantResult.variantId = ''v2'', name = ''Test Variant 1'', visitors = 8250,
       conversions = 2013 / 4, revenue = 50325, arpu = 100, rpv = 61 / 10,
       isRevenueLeader = False, isRPVLeader = False\<rparr>,
      \<lparr>VariantResult.variantId = ''v3'', name = ''Test Variant 2'', visitors = 8250,
       conversions = 231, revenue = 153615 / 2, arpu = 665 / 2, rpv = 931 / 100,
       isRevenueLeader = False, isRPVLeader = False\<rparr>]"
  by (simp add: engine_eval cheapTestVariants_def defaultAssumptions_def)

section \<open>Per-variant metrics\<close>

text \<open>
  Claim C1. For every variant list and every assumptions record, the result at the
  position of a variant \<open>v\<close> has visitors = monthlyTraffic * (trafficSplit / 100),
  conversions = visitors * (convRate / 100), revenue = conversions * price, divided by 12
  exactly when the billing cycle of \<open>v\<close> is Annual, and rpv = revenue / visitors when
  visitors > 0 and 0 otherwise; trafficSplit and convRate are those of the entry found
  under the id of \<open>v\<close> (0 when there is none). The results are as many as the variants.
\<close>

theorem simulation_metrics:
  assumes "i < length vs"
  shows "length (results (simulation vs a)) = length vs \<and>
    (let v = vs ! i; r = results (simulation vs a) ! i;
         split = (case perVariantAssumptions a (id_v v) of Some va \<Rightarrow> trafficSplit va | None \<Rightarrow> 0);
         rate = (case perVariantAssumptions a (id_v v) of Some va \<Rightarrow> convRate va | None \<Rightarrow> 0)
     in visitors r = monthlyTraffic a * (split / 100) \<and>
        conversions r = visitors r * (rate / 100) \<and>
        revenue r = (if billingCycle v = Annual then conversions r * price v / 12
                     else conversions r * price v) \<and>
        rpv r = (if visitors r > 0 then revenue r / visitors r else 0))"
  using assms
  by (simp add: length_results_simulation simulation_nth_fields variantResult_fields
      lookupAssumptions_def Let_def split: option.split)

theorem simulation_metrics_witness:
  "(1::nat) < length defaultVariants \<and>
   visitors (results (simulation defaultVariants defaultAssumptions) ! 1) = 25000 * (33 / 100) \<and>
   conversions (results (simulation defaultVariants defaultAssumptions) ! 1)
     = visitors (results (simulation defaultVariants defaultAssumptions) ! 1) * ((61 / 10) / 100) \<and>
   revenue (results (simulation defaultVariants defaultAssumptions) ! 1)
     = conversions (results (simulation defaultVariants defaultAssumptions) ! 1) * 349 \<and>
   rpv (results (simulation defaultVariants defaultAssumptions) ! 1)
     = revenue (results (simulation defaultVariants defaultAssumptions) ! 1)
       / visitors (results (simulation defaultVariants defaultAssumptions) ! 1)"
proof -
  have len: "(1::nat) < length defaultVariants" by (simp add: defaultVariants_def)
  have v: "defaultVariants ! 1 = \<lparr>id_v = ''v2'', PricingVariant.name = ''Test Variant 1'',
      price = 349, billingCycle = Monthly, notes_v = ''Testing lower price point'',
      isControl = False\<rparr>"
    by (simp add: defaultVariants_def)
  have a: "perVariantAssumptions defaultAssumptions ''v2'' =
      Some \<lparr>VariantAssumptions.variantId = ''v2'', trafficSplit = 33,
                    convRate = 61 / 10, churnRate = 8\<rparr>"
    "monthlyTraffic defaultAssumptions = 25000"
    by (simp_all add: defaultAssumptions_def)
  have pos: "0 < visitors (results (simulation defaultVariants defaultAssumptions) ! 1)"
    by (simp add: default_results)
  from simulation_metrics[OF len, of defaultAssumptions] pos len show ?thesis
    unfolding Let_def v by (simp add: a)
qed

text \<open>
  Claim C9. On the initial state (traffic 25000; splits 34/33/33; conversion rates
  4.2/6.1/2.8; prices 499/349/3990; cycles Monthly/Monthly/Annual) the first variant has
  8500 visitors, 357 conversions and revenue 178143; the third has 231 conversions, raw
  revenue 231 * 3990 = 921690 and normalized monthly revenue 76807.5.
\<close>

theorem scenario_A:
  "(let rs = results (simulation defaultVariants defaultAssumptions)
    in visitors (rs ! 0) = 8500 \<and> conversions (rs ! 0) = 357 \<and> revenue (rs ! 0) = 178143 \<and>
       conversions (rs ! 2) = 231 \<and>
       conversions (rs ! 2) * price (defaultVariants ! 2) = 921690 \<and>
       revenue (rs ! 2) = 768075 / 10)"
proof -
  have len: "0 < length defaultVariants" "2 < length defaultVariants"
    by (simp_all add: defaultVariants_def)
  show ?thesis
    unfolding Let_def simulation_nth_fields[OF len(1)] simulation_nth_fields[OF len(2)]
    by (simp add: defaultVariants_def defaultAssumptions_def variantResult_fields lookupAssumptions_def)
qed

section \<open>Leader flags\<close>

text \<open>
  Claim C2. In every output of the engine a result is flagged revenue leader exactly when
  its revenue is the maximum over all results and that maximum is positive, and flagged
  RPV leader exactly when its rpv is the maximum rpv and that maximum is positive. So
  every result that ties the maximum is flagged, no result is flagged when the maximum
  is 0, and an empty variant list gives no result at all.
\<close>

theorem leader_flags:
  "(\<forall>r \<in> set (results (simulation vs a)).
      (isRevenueLeader r \<longleftrightarrow>
         revenue r = Max (revenue ` set (results (simulation vs a))) \<and>
         0 < Max (revenue ` set (results (simulation vs a)))) \<and>
      (isRPVLeader r \<longleftrightarrow>
         rpv r = Max (rpv ` set (results (simulation vs a))) \<and>
         0 < Max (rpv ` set (results (simulation vs a))))) \<and>
   (Max (revenue ` set (results (simulation vs a))) = 0 \<longrightarrow>
      (\<forall>r \<in> set (results (simulation vs a)). \<not> isRevenueLeader r)) \<and>
   (Max (rpv ` set (results (simulation vs a))) = 0 \<longrightarrow>
      (\<forall>r \<in> set (results (simulation vs a)). \<not> isRPVLeader r)) \<and>
   (vs = [] \<longrightarrow> results (simulation vs a) = [])"
  using flags_of_member[of _ vs a] by (auto simp: results_simulation_Nil)

theorem leader_flags_witness:
  "results (simulation defaultVariants defaultAssumptions) ! 1
     \<in> set (results (simulation defaultVariants defaultAssumptions)) \<and>
   isRPVLeader (results (simulation defaultVariants defaultAssumptions) ! 1) \<and>
   rpv (results (simulation defaultVariants defaultAssumptions) ! 1)
     = Max (rpv ` set (results (simulation defaultVariants defaultAssumptions))) \<and>
   0 < Max (rpv ` set (results (simulation defaultVariants defaultAssumptions)))"
proof -
  have m: "results (simulation defaultVariants defaultAssumptions) ! 1
     \<in> set (results (simulation defaultVariants defaultAssumptions))"
    by (simp add: length_results_simulation defaultVariants_def)
  have f: "isRPVLeader (results (simulation defaultVariants defaultAssumptions) ! 1)"
    by (simp add: default_results)
  from leader_flags[of defaultVariants defaultAssumptions] m f show ?thesis by blast
qed

section \<open>ARPU\<close>

text \<open>
  For a converting variant the price-derived value is also the quotient of its revenue
  and its conversions; the two differ where nothing converts.
\<close>

lemma arpu_is_quotient_when_converting:
  assumes "i < length vs" and "0 < conversions (results (simulation vs a) ! i)"
  shows "arpu (results (simulation vs a) ! i) =
         revenue (results (simulation vs a) ! i) / conversions (results (simulation vs a) ! i)"
proof -
  have "0 < conversions (variantResult a (vs ! i))"
    using assms by (simp only: simulation_nth_fields)
  then have "arpu (variantResult a (vs ! i)) =
      revenue (variantResult a (vs ! i)) / conversions (variantResult a (vs ! i))"
    by (simp add: variantResult_fields(5,6))
  then show ?thesis
    using assms(1) by (simp only: simulation_nth_fields)
qed

text \<open>
  Claim C3. The arpu of a variant is its price, divided by 12 on an Annual cycle, when its
  conversions are positive, and 0 otherwise. In particular it is 0 when the conversions
  are 0, where the quotient revenue / conversions of JavaScript is \<^verbatim>\<open>NaN\<close>. When
  traffic, split and rate are not negative, as the data model has them, the conversions
  are not negative, so arpu is the monthly price whenever the conversions are not 0. Two
  converting variants with the same price and cycle have the same arpu, whatever their
  traffic, splits and rates and whatever the other variants are.
\<close>

theorem arpu_price_derived:
  assumes "i < length vs" and "j < length ws"
  shows "(let v = vs ! i; r = results (simulation vs a) ! i;
              w = ws ! j; s = results (simulation ws b) ! j;
              va = lookupAssumptions a v
          in arpu r = (if 0 < conversions r
                       then (if billingCycle v = Annual then price v / 12 else price v) else 0) \<and>
             (conversions r = 0 \<longrightarrow>
                arpu r = 0 \<and> js_div (Fin (revenue r)) (Fin (conversions r)) = NaN) \<and>
             (0 \<le> monthlyTraffic a \<and> 0 \<le> trafficSplit va \<and> 0 \<le> convRate va \<longrightarrow>
                0 \<le> conversions r \<and>
                (conversions r \<noteq> 0 \<longrightarrow>
                   arpu r = (if billingCycle v = Annual then price v / 12 else price v))) \<and>
             (0 < conversions r \<and> 0 < conversions s \<and> price v = price w \<and>
              billingCycle v = billingCycle w \<longrightarrow> arpu r = arpu s))"
  using assms
  by (simp add: simulation_nth_fields variantResult_fields Let_def js_inf_of_sign_def)

theorem arpu_price_derived_witness:
  "(2::nat) < length defaultVariants \<and> (2::nat) < length monthlyTwelfthVariants \<and>
   0 < conversions (results (simulation defaultVariants defaultAssumptions) ! 2) \<and>
   0 < conversions (results (simulation monthlyTwelfthVariants defaultAssumptions) ! 2) \<and>
   arpu (results (simulation defaultVariants defaultAssumptions) ! 2) = 3990 / 12 \<and>
   arpu (results (simulation monthlyTwelfthVariants defaultAssumptions) ! 2) = 3990 / 12"
proof -
  have len: "(2::nat) < length defaultVariants" "(2::nat) < length monthlyTwelfthVariants"
    by (simp_all add: defaultVariants_def monthlyTwelfthVariants_def)
  have v: "defaultVariants ! 2 = \<lparr>id_v = ''v3'', PricingVariant.name = ''Test Variant 2'',
      price = 3990, billingCycle = Annual, notes_v = ''Testing annual commitment'',
      isControl = False\<rparr>"
    "monthlyTwelfthVariants ! 2 = \<lparr>id_v = ''v3'', PricingVariant.name = ''Test Variant 2'',
      price = 3990 / 12, billingCycle = Monthly, notes_v = ''Testing annual commitment'',
      isControl = False\<rparr>"
    by (simp_all add: defaultVariants_def monthlyTwelfthVariants_def)
  have c: "0 < conversions (results (simulation defaultVariants defaultAssumptions) ! 2)"
    "0 < conversions (results (simulation monthlyTwelfthVariants defaultAssumptions) ! 2)"
    by (simp_all add: simulation_nth_fields len variantResult_fields v lookupAssumptions_def
        defaultAssumptions_def)
  from arpu_price_derived[OF len(1) len(1), of defaultAssumptions defaultAssumptions]
    arpu_price_derived[OF len(2) len(2), of defaultAssumptions defaultAssumptions] c len
  show ?thesis
    unfolding Let_def v by simp
qed

section \<open>The three kinds of insight are different strings\<close>

text \<open>
  Whatever the name of the leader, the winner's sentence ends in a blank or in one of the
  three clauses, so its last two characters tell it from the two fixed messages.
\<close>

lemma winnerInsight_form:
  "\<exists>p. winnerInsight nts l c = p @ ''% efficiency lift over Control. '' \<or>
       winnerInsight nts l c = p @ volume_clause \<or>
       winnerInsight nts l c = p @ arpu_clause \<or>
       winnerInsight nts l c = p @ expansion_clause"
proof -
  let ?t = "VariantResult.name l @ '' is the winner with a ''
            @ toFixed nts (js_mul (js_div (js_sub (Fin (rpv l)) (Fin (rpv c))) (Fin (rpv c))) (Fin 100)) 1"
  have "winnerInsight nts l c = ?t @ ''% efficiency lift over Control. '' \<or>
        winnerInsight nts l c = (?t @ ''% efficiency lift over Control. '') @ volume_clause \<or>
        winnerInsight nts l c = (?t @ ''% efficiency lift over Control. '') @ arpu_clause \<or>
        winnerInsight nts l c = (?t @ ''% efficiency lift over Control. '') @ expansion_clause"
    unfolding winnerInsight_def Let_def by (simp only: append_assoc if_split) auto
  then show ?thesis by blast
qed

lemma nth_from_end:
  assumes "k < length s"
  shows "(p @ s) ! (length (p @ s) - Suc k) = s ! (length s - Suc k)"
proof -
  from assms have "length (p @ s) - Suc k = length p + (length s - Suc k)" by simp
  then show ?thesis by (simp only: nth_append_length_plus)
qed

lemma message_ends:
  "''% efficiency lift over Control. '' ! (length ''% efficiency lift over Control. '' - Suc 0)
     = CHR '' ''"
  "volume_clause ! (length volume_clause - Suc 1) = CHR ''U''"
  "arpu_clause ! (length arpu_clause - Suc 1) = CHR ''e''"
  "expansion_clause ! (length expansion_clause - Suc 1) = CHR ''y''"
  "awaiting_msg ! (length awaiting_msg - Suc 0) = CHR ''.''"
  "awaiting_msg ! (length awaiting_msg - Suc 1) = CHR ''.''"
  "control_best_msg ! (length control_best_msg - Suc 0) = CHR ''.''"
  "control_best_msg ! (length control_best_msg - Suc 1) = CHR '')''"
  by (simp_all add: volume_clause_def arpu_clause_def expansion_clause_def awaiting_msg_def
      control_best_msg_def)

lemma message_lengths:
  "0 < length ''% efficiency lift over Control. ''" "1 < length volume_clause"
  "1 < length arpu_clause" "1 < length expansion_clause"
  by (simp_all add: volume_clause_def arpu_clause_def expansion_clause_def)

lemma winnerInsight_ends:
  "winnerInsight nts l c ! (length (winnerInsight nts l c) - Suc 0) = CHR '' '' \<or>
   winnerInsight nts l c ! (length (winnerInsight nts l c) - Suc 1)
     \<in> {CHR ''U'', CHR ''e'', CHR ''y''}"
proof -
  from winnerInsight_form[of nts l c] obtain p where
    "winnerInsight nts l c = p @ ''% efficiency lift over Control. '' \<or>
     winnerInsight nts l c = p @ volume_clause \<or>
     winnerInsight nts l c = p @ arpu_clause \<or>
     winnerInsight nts l c = p @ expansion_clause" by blast
  then show ?thesis
  proof (elim disjE)
    assume w: "winnerInsight nts l c = p @ ''% efficiency lift over Control. ''"
    show ?thesis
      unfolding w nth_from_end[OF message_lengths(1)] message_ends by simp
  next
    assume w: "winnerInsight nts l c = p @ volume_clause"
    show ?thesis
      unfolding w nth_from_end[OF message_lengths(2)] message_ends by simp
  next
    assume w: "winnerInsight nts l c = p @ arpu_clause"
    show ?thesis
      unfolding w nth_from_end[OF message_lengths(3)] message_ends by simp
  next
    assume w: "winnerInsight nts l c = p @ expansion_clause"
    show ?thesis
      unfolding w nth_from_end[OF message_lengths(4)] message_ends by simp
  qed
qed

lemma winnerInsight_ne_awaiting: "winnerInsight nts l c \<noteq> awaiting_msg"
proof
  assume "winnerInsight nts l c = awaiting_msg"
  with winnerInsight_ends[of nts l c] show False
    by (simp only: message_ends) simp
qed

lemma winnerInsight_ne_control_best: "winnerInsight nts l c \<noteq> control_best_msg"
proof
  assume "winnerInsight nts l c = control_best_msg"
  with winnerInsight_ends[of nts l c] show False
    by (simp only: message_ends) simp
qed

lemma control_best_ne_awaiting: "control_best_msg \<noteq> awaiting_msg"
  by (simp add: control_best_msg_def awaiting_msg_def)

section \<open>When each insight is produced\<close>

lemma find_SomeD_mem: "find P xs = Some x \<Longrightarrow> x \<in> set xs \<and> P x"
  by (auto simp: find_Some_iff)

lemma find_by_key_None: "find (\<lambda>r. f r = k) xs = None \<longleftrightarrow> k \<notin> f ` set xs"
  by (auto simp: find_None_iff)

lemma experimentInsight_awaiting_iff:
  "experimentInsight nts sim = awaiting_msg \<longleftrightarrow>
     find isRPVLeader (results sim) = None \<or>
     find (\<lambda>r. VariantResult.variantId r = ''v1'') (results sim) = None"
  by (auto simp: experimentInsight_def winnerInsight_ne_awaiting control_best_ne_awaiting
      split: option.splits)

lemma experimentInsight_control_best_iff:
  "experimentInsight nts sim = control_best_msg \<longleftrightarrow>
     (case find isRPVLeader (results sim) of None \<Rightarrow> False
      | Some leader \<Rightarrow> VariantResult.variantId leader = ''v1'')"
proof (cases "find isRPVLeader (results sim)")
  case None
  then show ?thesis
    using control_best_ne_awaiting by (simp add: experimentInsight_def)
next
  case (Some l)
  show ?thesis
  proof (cases "VariantResult.variantId l = ''v1''")
    case True
    from find_SomeD_mem[OF Some] True
    have "find (\<lambda>r. VariantResult.variantId r = ''v1'') (results sim) \<noteq> None"
      by (auto simp: find_None_iff)
    with Some True show ?thesis
      by (auto simp: experimentInsight_def)
  next
    case False
    with Some show ?thesis
      using control_best_ne_awaiting[symmetric]
      by (auto simp: experimentInsight_def winnerInsight_ne_control_best split: option.splits)
  qed
qed






text \<open>
  The condition is wider than an empty variant set or a set without control: with the
  three traffic splits at 0 no rpv is positive, and the three initial variants, the
  control among them, give the placeholder.
\<close>

lemma all_idle_placeholder:
  "experimentInsight nts (simulation defaultVariants allIdleAssumptions) = awaiting_msg \<and>
   defaultVariants \<noteq> [] \<and> id_v (defaultVariants ! 0) = ''v1'' \<and> isControl (defaultVariants ! 0)"
proof -
  have "experimentInsight nts (simulation defaultVariants allIdleAssumptions) = awaiting_msg"
    by (simp add: allIdle_results experimentInsight_def)
  moreover have "defaultVariants \<noteq> [] \<and> id_v (defaultVariants ! 0) = ''v1'' \<and>
      isControl (defaultVariants ! 0)"
    by (simp add: defaultVariants_def)
  ultimately show ?thesis by simp
qed

text \<open>
  \<^verbatim>\<open>results.find\<close> returns the first flagged result. With the control listed first, as
  the initial state has it and no handler changes, a flagged control is that result.
\<close>

lemma flagged_first_control:
  assumes "results sim = c # rest" and "isRPVLeader c" and "VariantResult.variantId c = ''v1''"
  shows "experimentInsight nts sim = control_best_msg"
  using assms by (simp add: experimentInsight_def)

text \<open>
  Claim C6. When the output has an RPV leader and a control result and the leader (the
  first flagged result) has the id of the control, the insight is the fixed sentence that
  the control remains best, whatever the other results are.
\<close>

theorem control_remains_best:
  assumes "find isRPVLeader (results sim) = Some leader"
    and "find (\<lambda>r. VariantResult.variantId r = ''v1'') (results sim) = Some control"
    and "VariantResult.variantId leader = ''v1''"
  shows "experimentInsight nts sim = control_best_msg"
  using assms by (simp add: experimentInsight_def)

theorem control_remains_best_witness:
  "find isRPVLeader (results (simulation cheapTestVariants defaultAssumptions))
     = Some (results (simulation cheapTestVariants defaultAssumptions) ! 0) \<and>
   find (\<lambda>r. VariantResult.variantId r = ''v1'')
        (results (simulation cheapTestVariants defaultAssumptions))
     = Some (results (simulation cheapTestVariants defaultAssumptions) ! 0) \<and>
   VariantResult.variantId (results (simulation cheapTestVariants defaultAssumptions) ! 0) = ''v1'' \<and>
   experimentInsight (\<lambda>_. []) (simulation cheapTestVariants defaultAssumptions) = control_best_msg"
proof -
  have l: "find isRPVLeader (results (simulation cheapTestVariants defaultAssumptions))
     = Some (results (simulation cheapTestVariants defaultAssumptions) ! 0)"
    by (simp add: cheapTest_results)
  have c: "find (\<lambda>r. VariantResult.variantId r = ''v1'')
        (results (simulation cheapTestVariants defaultAssumptions))
     = Some (results (simulation cheapTestVariants defaultAssumptions) ! 0)"
    by (simp add: cheapTest_results)
  have i: "VariantResult.variantId (results (simulation cheapTestVariants defaultAssumptions) ! 0)
     = ''v1''"
    by (simp add: cheapTest_results)
  from control_remains_best[OF l c i] l c i show ?thesis by simp
qed

text \<open>
  Claim C7. Whenever leader and control exist and differ, the sentence is to give the
  lift (leader.rpv - control.rpv) / control.rpv * 100 to one decimal place. With the
  traffic-split slider of the control at 0 the control's rpv is 0, the first test
  variant leads, the division by the control's rpv is a division by zero, and the
  sentence reads \<^verbatim>\<open>Infinity%\<close>, with no clause after it. The card that shows the same
  lift guards the division with \<^verbatim>\<open>controlResult.rpv > 0\<close>; the sentence does not.
\<close>

theorem idle_control_lift_Infinity:
  "find isRPVLeader (results (simulation defaultVariants controlIdleAssumptions))
     = Some (results (simulation defaultVariants controlIdleAssumptions) ! 1) \<and>
   find (\<lambda>r. VariantResult.variantId r = ''v1'')
        (results (simulation defaultVariants controlIdleAssumptions))
     = Some (results (simulation defaultVariants controlIdleAssumptions) ! 0) \<and>
   VariantResult.variantId (results (simulation defaultVariants controlIdleAssumptions) ! 1) \<noteq> ''v1'' \<and>
   rpv (results (simulation defaultVariants controlIdleAssumptions) ! 0) = 0 \<and>
   experimentInsight (\<lambda>_. []) (simulation defaultVariants controlIdleAssumptions) =
     ''Test Variant 1 is the winner with a Infinity% efficiency lift over Control. ''"
  by (simp add: controlIdle_results experimentInsight_def winnerInsight_def toFixed_def
      js_sub_def js_gt_def js_inf_of_sign_def)

section \<open>The control is the variant with id v1\<close>

lemma reflag_lookupAssumptions:
  "lookupAssumptions a (v\<lparr>isControl := b\<rparr>) = lookupAssumptions a v"
  by (simp add: lookupAssumptions_def split: option.split)

lemma reflag_variantResult:
  "variantResult a (v\<lparr>isControl := b\<rparr>) = variantResult a v"
  by (simp add: variantResult_def reflag_lookupAssumptions Let_def cong del: if_weak_cong)

lemma simulation_reflag:
  "simulation (map (\<lambda>i. (vs ! i)\<lparr>isControl := flags i\<rparr>) [0..<length vs]) a = simulation vs a"
proof -
  let ?ws = "map (\<lambda>i. (vs ! i)\<lparr>isControl := flags i\<rparr>) [0..<length vs]"
  have "map (variantResult a) ?ws = map (\<lambda>i. variantResult a (vs ! i)) [0..<length vs]"
    by (simp add: reflag_variantResult reflag_lookupAssumptions o_def)
  also have "\<dots> = map (variantResult a) (map (\<lambda>i. vs ! i) [0..<length vs])"
    by (simp add: o_def)
  finally have r: "map (variantResult a) ?ws = map (variantResult a) vs"
    by (simp only: map_nth)
  have "map (\<lambda>v. trafficSplit (lookupAssumptions a v)) ?ws
      = map (\<lambda>v. trafficSplit (lookupAssumptions a v)) (map (\<lambda>i. vs ! i) [0..<length vs])"
    by (simp add: reflag_variantResult reflag_lookupAssumptions o_def)
  then have s: "map (\<lambda>v. trafficSplit (lookupAssumptions a v)) ?ws
      = map (\<lambda>v. trafficSplit (lookupAssumptions a v)) vs"
    by (simp only: map_nth)
  show ?thesis
    unfolding simulation_def mapVariants_eq r s ..
qed

text \<open>
  Claim C10. The insight is the placeholder exactly when no result is flagged RPV leader
  or no result has the id \<open>v1\<close>; it is the control sentence exactly when there is a
  flagged result and the first one has the id \<open>v1\<close>; and setting the \<open>isControl\<close> flags
  of the variants in any way leaves the insight as it is.
\<close>

theorem control_is_v1:
  "(experimentInsight nts sim = awaiting_msg \<longleftrightarrow>
      True \<notin> isRPVLeader ` set (results sim) \<or>
      ''v1'' \<notin> VariantResult.variantId ` set (results sim)) \<and>
   (experimentInsight nts sim = control_best_msg \<longleftrightarrow>
      (case find isRPVLeader (results sim) of None \<Rightarrow> False
       | Some leader \<Rightarrow> VariantResult.variantId leader = ''v1'')) \<and>
   experimentInsight nts
     (simulation (map (\<lambda>i. (vs ! i)\<lparr>isControl := flags i\<rparr>) [0..<length vs]) a)
     = experimentInsight nts (simulation vs a)"
proof -
  have "find isRPVLeader (results sim) = None \<longleftrightarrow> True \<notin> isRPVLeader ` set (results sim)"
    by (auto simp: find_None_iff image_iff)
  then show ?thesis
    by (simp only: experimentInsight_awaiting_iff experimentInsight_control_best_iff
        simulation_reflag find_by_key_None)
qed

theorem control_is_v1_witness:
  "experimentInsight (\<lambda>_. []) (simulation cheapTestVariants defaultAssumptions) = control_best_msg \<and>
   experimentInsight (\<lambda>_. []) (simulation defaultVariants allIdleAssumptions) = awaiting_msg \<and>
   experimentInsight (\<lambda>_. [])
     (simulation (map (\<lambda>i. (defaultVariants ! i)\<lparr>isControl := (i = 2)\<rparr>)
                      [0..<length defaultVariants]) defaultAssumptions)
     = experimentInsight (\<lambda>_. []) (simulation defaultVariants defaultAssumptions)"
proof -
  have 1: "experimentInsight (\<lambda>_. []) (simulation cheapTestVariants defaultAssumptions)
      = control_best_msg"
    using control_is_v1[of "\<lambda>_. []" "simulation cheapTestVariants defaultAssumptions"]
    by (simp add: cheapTest_results)
  have 2: "experimentInsight (\<lambda>_. []) (simulation defaultVariants allIdleAssumptions)
      = awaiting_msg"
    using control_is_v1[of "\<lambda>_. []" "simulation defaultVariants allIdleAssumptions"]
    by (simp add: allIdle_results)
  from 1 2 control_is_v1[where nts = "\<lambda>_. []" and vs = defaultVariants
      and flags = "\<lambda>i. i = 2" and a = defaultAssumptions]
  show ?thesis by blast
qed

section \<open>Rounding to the nearest double\<close>

text \<open>
  \<open>floor_log2\<close> is the exponent of a positive number and \<open>round_even\<close> moves a number
  by at most one half, so the rounding of a number of magnitude \<open>2^-1022\<close> or more moves
  it by at most its \<open>2^-53\<close>-th part.
\<close>

lemma bit_length_bounds:
  "0 < n \<Longrightarrow> (2::nat) ^ (bit_length n - 1) \<le> n \<and> n < (2::nat) ^ bit_length n"
proof (induction n rule: bit_length.induct)
  case (1 n)
  show ?case
  proof (cases "n div 2 = 0")
    case True
    with 1(2) have "n = 1" by presburger
    then show ?thesis by (simp add: bit_length.simps)
  next
    case False
    with 1 have ih: "(2::nat) ^ (bit_length (n div 2) - 1) \<le> n div 2"
      "n div 2 < (2::nat) ^ bit_length (n div 2)"
      by simp_all
    have pos: "0 < bit_length (n div 2)"
      using False by (subst bit_length.simps) simp
    have bl: "bit_length n = Suc (bit_length (n div 2))"
      using 1(2) by (subst bit_length.simps) simp
    from pos have "(2::nat) ^ (bit_length n - 1) = 2 * 2 ^ (bit_length (n div 2) - 1)"
      unfolding bl by (cases "bit_length (n div 2)") simp_all
    with ih(1) have lo: "(2::nat) ^ (bit_length n - 1) \<le> n" by presburger
    from ih(2) have "n < 2 * (2::nat) ^ bit_length (n div 2)" by presburger
    then have hi: "n < (2::nat) ^ bit_length n" unfolding bl by simp
    from lo hi show ?thesis ..
  qed
qed

lemma scale2_one: "scale2 e 1 = (if 0 \<le> e then 2 ^ nat e else 1 / 2 ^ nat (- e))"
  by (simp add: scale2_def)

lemma floor_log2_bracket:
  assumes "0 < x"
  shows "scale2 (floor_log2 x) 1 \<le> x \<and> x < scale2 (floor_log2 x + 1) 1"
proof (cases "1 \<le> x")
  case True
  define n where "n = nat \<lfloor>x\<rfloor>"
  from True have n: "0 < n" "real n \<le> x" "x < real n + 1"
    by (simp_all add: n_def, linarith?)
  from bit_length_bounds[OF n(1)] have b: "(2::nat) ^ (bit_length n - 1) \<le> n" "n < (2::nat) ^ bit_length n"
    by simp_all
  have pos: "0 < bit_length n" using n(1) by (subst bit_length.simps) simp
  have fl: "floor_log2 x = int (bit_length n) - 1"
    using True by (simp add: floor_log2_def n_def)
  have e1: "scale2 (floor_log2 x) 1 = 2 ^ (bit_length n - 1)"
    using pos by (simp add: fl scale2_one nat_diff_distrib)
  have e2: "scale2 (floor_log2 x + 1) 1 = 2 ^ bit_length n"
    by (simp add: fl scale2_one)
  have "(2::real) ^ (bit_length n - 1) = real ((2::nat) ^ (bit_length n - 1))" by simp
  also have "\<dots> \<le> real n" using b(1) by (rule of_nat_mono)
  also have "\<dots> \<le> x" by (rule n(2))
  finally have lo: "(2::real) ^ (bit_length n - 1) \<le> x" .
  from b(2) have "Suc n \<le> (2::nat) ^ bit_length n" by simp
  then have "real (Suc n) \<le> real ((2::nat) ^ bit_length n)" by (rule of_nat_mono)
  then have "real n + 1 \<le> (2::real) ^ bit_length n" by simp
  with n(3) have hi: "x < (2::real) ^ bit_length n" by linarith
  show ?thesis unfolding e1 e2 using lo hi ..
next
  case False
  define m where "m = nat \<lceil>1 / x\<rceil>"
  from False assms have y: "1 < 1 / x" by simp
  then have "1 < \<lceil>1 / x\<rceil>" by (simp add: less_ceiling_iff)
  then have c: "2 \<le> \<lceil>1 / x\<rceil>" by simp
  then have rm: "real m = of_int \<lceil>1 / x\<rceil>" by (simp add: m_def)
  from c have m2: "2 \<le> m" unfolding m_def by linarith
  from ceiling_correct[of "1 / x"] have "1 / x \<le> real m" "real m - 1 < 1 / x"
    unfolding rm by simp_all
  with m2 have m: "2 \<le> m" "1 / x \<le> real m" "real m - 1 < 1 / x" by simp_all
  define j where "j = bit_length (m - 1)"
  from m(1) have "0 < m - 1" by simp
  from bit_length_bounds[OF this] have b: "(2::nat) ^ (j - 1) \<le> m - 1" "m - 1 < (2::nat) ^ j"
    by (simp_all add: j_def)
  have pos: "0 < j" using m(1) unfolding j_def by (subst bit_length.simps) simp
  have fl: "floor_log2 x = - int j"
    using False by (simp add: floor_log2_def m_def j_def)
  have e1: "scale2 (floor_log2 x) 1 = 1 / 2 ^ j"
    using pos by (simp add: fl scale2_one)
  have e2: "scale2 (floor_log2 x + 1) 1 = 1 / 2 ^ (j - 1)"
  proof (cases "j = 1")
    case True
    then show ?thesis by (simp add: fl scale2_one)
  next
    case False
    with pos have "1 < j" by simp
    then have "nat (int j - 1) = j - 1" by simp
    with \<open>1 < j\<close> show ?thesis by (simp add: fl scale2_one)
  qed
  from b(2) m(1) have "m \<le> (2::nat) ^ j" by simp
  then have "real m \<le> real ((2::nat) ^ j)" by (rule of_nat_mono)
  then have "real m \<le> (2::real) ^ j" by simp
  with m(2) have "1 / x \<le> (2::real) ^ j" by linarith
  with assms have lo: "1 / 2 ^ j \<le> x"
    by (simp add: field_simps)
  have "real ((2::nat) ^ (j - 1)) \<le> real (m - 1)" using b(1) by (rule of_nat_mono)
  then have "(2::real) ^ (j - 1) \<le> real (m - 1)" by simp
  also have "real (m - 1) = real m - 1" using m(1) by (simp add: of_nat_diff)
  finally have "(2::real) ^ (j - 1) < 1 / x" using m(3) by linarith
  with assms have hi: "x < 1 / 2 ^ (j - 1)"
    by (simp add: field_simps)
  show ?thesis unfolding e1 e2 using lo hi ..
qed

lemma round_even_nearest: "\<bar>of_int (round_even x) - x\<bar> \<le> 1 / 2"
  unfolding round_even_def Let_def by (simp; linarith)

lemma scale2_powr: "scale2 e x = x * 2 powr (of_int e)"
proof (cases "0 \<le> e")
  case True
  then have "(2::real) powr (of_int e) = 2 ^ nat e"
    by (simp add: powr_realpow [symmetric])
  with True show ?thesis by (simp add: scale2_def)
next
  case False
  then have "(2::real) powr (of_int e) = inverse (2 ^ nat (- e))"
    using powr_minus[of 2 "real (nat (- e))"] by (simp add: powr_realpow [symmetric])
  with False show ?thesis by (simp add: scale2_def divide_inverse)
qed

lemma floor_log2_powr:
  assumes "0 < x"
  shows "2 powr (of_int (floor_log2 x)) \<le> x" and "x < 2 powr (of_int (floor_log2 x + 1))"
  using floor_log2_bracket[OF assms] by (simp_all add: scale2_powr)

lemma nearest_double_error:
  assumes "1 / 2 ^ 1022 \<le> \<bar>x\<bar>"
  shows "\<bar>nearest_double x - x\<bar> \<le> \<bar>x\<bar> / 2 ^ 53"
proof -
  define a where "a = \<bar>x\<bar>"
  have "(0::real) < 1 / 2 ^ 1022" by simp
  with assms have pos: "0 < a" unfolding a_def by linarith
  then have x0: "x \<noteq> 0" by (auto simp: a_def)
  define fl where "fl = floor_log2 a"
  from floor_log2_powr[OF pos] have lo: "2 powr (of_int fl) \<le> a"
    and hi: "a < 2 powr (of_int (fl + 1))" by (simp_all add: fl_def)
  have "(2::real) powr (of_int (- 1022)) = 1 / 2 ^ 1022"
    using scale2_powr[of "- 1022" 1] by (simp add: scale2_def)
  with assms hi have "(2::real) powr (of_int (- 1022)) < 2 powr (of_int (fl + 1))"
    unfolding a_def by linarith
  then have "(- 1022::int) < fl + 1" by (simp del: of_int_minus of_int_add of_int_numeral)
  then have e: "max (fl - 52) (- 1074) = fl - 52" by simp
  define p where "p = (2::real) powr (of_int (fl - 52))"
  have ppos: "0 < p" by (simp add: p_def)
  have pinv: "(2::real) powr (of_int (- (fl - 52))) = inverse p"
    unfolding p_def using powr_minus[of 2 "of_int (fl - 52)"] by simp
  define r where "r = round_even (a * inverse p)"
  have "nearest_double x =
      sgn x * scale2 (max (floor_log2 \<bar>x\<bar> - 52) (- 1074))
        (of_int (round_even (scale2 (- max (floor_log2 \<bar>x\<bar> - 52) (- 1074)) \<bar>x\<bar>)))"
    using x0 by (simp only: nearest_double_def Let_def if_False)
  also have "\<dots> = sgn x * scale2 (fl - 52) (of_int (round_even (scale2 (- (fl - 52)) a)))"
    by (simp only: a_def[symmetric] fl_def[symmetric] e)
  also have "\<dots> = sgn x * (of_int r * p)"
    by (simp only: scale2_powr pinv p_def[symmetric] r_def)
  finally have nd: "nearest_double x = sgn x * (of_int r * p)" .
  have "\<bar>of_int r - a * inverse p\<bar> \<le> 1 / 2" unfolding r_def by (rule round_even_nearest)
  then have "\<bar>of_int r - a * inverse p\<bar> * p \<le> 1 / 2 * p"
    using ppos by (simp add: mult_right_mono)
  moreover have "\<bar>of_int r - a * inverse p\<bar> * p = \<bar>of_int r * p - a\<bar>"
  proof -
    have "\<bar>of_int r - a * inverse p\<bar> * p = \<bar>(of_int r - a * inverse p) * p\<bar>"
      using ppos by (simp add: abs_mult)
    also have "(of_int r - a * inverse p) * p = of_int r * p - a"
      using ppos by (simp add: algebra_simps)
    finally show ?thesis .
  qed
  ultimately have err: "\<bar>of_int r * p - a\<bar> \<le> p / 2" by simp
  have "x = sgn x * a" by (simp add: a_def sgn_real_def)
  then have "nearest_double x - x = sgn x * (of_int r * p - a)"
    unfolding nd by (simp add: algebra_simps)
  then have "\<bar>nearest_double x - x\<bar> = \<bar>of_int r * p - a\<bar>"
    using x0 by (simp add: abs_mult sgn_real_def)
  with err have 1: "\<bar>nearest_double x - x\<bar> \<le> p / 2" by simp
  have "p = 2 powr (of_int fl) * 2 powr (of_int (- 52))"
    unfolding p_def by (simp add: powr_add [symmetric])
  also have "(2::real) powr (of_int (- 52)) = 1 / 2 ^ 52"
    using scale2_powr[of "- 52" 1] by (simp add: scale2_def)
  finally have "p = 2 powr (of_int fl) / 2 ^ 52" by simp
  with lo have "p \<le> a / 2 ^ 52" by (simp add: divide_right_mono)
  then have "p / 2 \<le> a / 2 ^ 53" by simp
  with 1 show ?thesis unfolding a_def by linarith
qed

lemma binary64_FinD: "binary64 x = Fin y \<Longrightarrow> y = nearest_double x"
  by (simp add: binary64_def Let_def split: if_splits)

lemmas double_eval = nearest_double_def binary64_def floor_log2_def round_even_def scale2_def
  Let_def bit_length.simps

lemma nearest_double_rate: "nearest_double (36 / 10) = 8106479329266893 / 2 ^ 51"
  by (simp add: double_eval)

lemma binary64_twelfth: "binary64 (1200 / 12) = Fin 100"
  by (simp add: double_eval)


section \<open>Ids that name an inherited property\<close>

text \<open>
  Without rounding, and for an id that names no inherited property, the numbers of the
  callback are those of the engine above.
\<close>

lemma rounded_Fin: "rounded Fin x = x"
  by (cases x) (simp_all add: rounded_def)

lemma getProperty_cases:
  "getProperty a k = Inherited \<longleftrightarrow> perVariantAssumptions a k = None \<and> k \<in> set objectPrototypeNames"
  "getProperty a k \<noteq> Inherited \<Longrightarrow>
     numberField f (getProperty a k) =
       Fin (case perVariantAssumptions a k of Some va \<Rightarrow> f va | None \<Rightarrow> 0)"
  by (auto simp: getProperty_def numberField_def split: option.splits)

lemma variantNumbers_exact:
  assumes "getProperty a (id_v v) \<noteq> Inherited"
  shows "variantNumbers Fin a v =
     \<lparr>addend = Fin (trafficSplit (lookupAssumptions a v)),
      visitorsN = Fin (visitors (variantResult a v)),
      conversionsN = Fin (conversions (variantResult a v)),
      revenueN = Fin (revenue (variantResult a v)),
      arpuN = Fin (arpu (variantResult a v)),
      rpvN = Fin (rpv (variantResult a v))\<rparr>"
proof -
  have s: "numberField trafficSplit (getProperty a (id_v v)) = Fin (trafficSplit (lookupAssumptions a v))"
    and r: "numberField convRate (getProperty a (id_v v)) = Fin (convRate (lookupAssumptions a v))"
    using assms
    by (auto simp: getProperty_def numberField_def lookupAssumptions_def split: option.splits if_splits)
  show ?thesis
    unfolding variantNumbers_def Let_def s r rounded_Fin
    by (simp add: variantResult_fields js_gt_def)
qed


lemma fold_addend_exact:
  assumes "\<forall>v \<in> set vs. getProperty a (id_v v) \<noteq> Inherited"
  shows "fold (\<lambda>v splitTotal. rounded Fin (js_add splitTotal (addend (variantNumbers Fin a v))))
              vs (Fin t)
         = Fin (t + sum_list (map (\<lambda>v. trafficSplit (lookupAssumptions a v)) vs))"
  using assms
proof (induction vs arbitrary: t)
  case Nil
  show ?case by simp
next
  case (Cons v vs)
  from Cons.prems have "getProperty a (id_v v) \<noteq> Inherited" by simp
  then have "addend (variantNumbers Fin a v) = Fin (trafficSplit (lookupAssumptions a v))"
    by (simp add: variantNumbers_exact)
  with Cons show ?case by (simp add: rounded_Fin add.assoc)
qed

lemma trafficSplitTotalN_exact:
  assumes "\<forall>v \<in> set vs. getProperty a (id_v v) \<noteq> Inherited"
  shows "trafficSplitTotalN Fin a vs = Fin (trafficSplitTotal (simulation vs a))"
  unfolding trafficSplitTotalN_def using fold_addend_exact[OF assms, of 0]
  by (simp add: trafficSplitTotal_simulation)





section \<open>An annual price and its monthly twelfth\<close>

text \<open>
  In the engine's exact arithmetic a variant priced \<open>P\<close> a year and one priced \<open>P / 12\<close>
  a month, with the same traffic, split and rate, have the same revenue, arpu and rpv.
\<close>

lemma twelfth_price_exact:
  assumes "i < length vs" and "j < length ws"
    and "monthlyTraffic a = monthlyTraffic b"
    and "trafficSplit (lookupAssumptions a (vs ! i)) = trafficSplit (lookupAssumptions b (ws ! j))"
    and "convRate (lookupAssumptions a (vs ! i)) = convRate (lookupAssumptions b (ws ! j))"
    and "billingCycle (vs ! i) = Annual" and "billingCycle (ws ! j) = Monthly"
    and "price (ws ! j) = price (vs ! i) / 12"
  shows "revenue (results (simulation vs a) ! i) = revenue (results (simulation ws b) ! j) \<and>
         arpu (results (simulation vs a) ! i) = arpu (results (simulation ws b) ! j) \<and>
         rpv (results (simulation vs a) ! i) = rpv (results (simulation ws b) ! j)"
  using assms
  by (simp add: simulation_nth_fields variantResult_fields)

lemma twelfth_price_exact_example:
  "(2::nat) < length defaultVariants \<and> (2::nat) < length monthlyTwelfthVariants \<and>
   billingCycle (defaultVariants ! 2) = Annual \<and>
   billingCycle (monthlyTwelfthVariants ! 2) = Monthly \<and>
   price (monthlyTwelfthVariants ! 2) = price (defaultVariants ! 2) / 12 \<and>
   revenue (results (simulation defaultVariants defaultAssumptions) ! 2)
     = revenue (results (simulation monthlyTwelfthVariants defaultAssumptions) ! 2) \<and>
   arpu (results (simulation defaultVariants defaultAssumptions) ! 2)
     = arpu (results (simulation monthlyTwelfthVariants defaultAssumptions) ! 2) \<and>
   rpv (results (simulation defaultVariants defaultAssumptions) ! 2)
     = rpv (results (simulation monthlyTwelfthVariants defaultAssumptions) ! 2)"
proof -
  have len: "(2::nat) < length defaultVariants" "(2::nat) < length monthlyTwelfthVariants"
    by (simp_all add: defaultVariants_def monthlyTwelfthVariants_def)
  have cyc: "billingCycle (defaultVariants ! 2) = Annual"
    "billingCycle (monthlyTwelfthVariants ! 2) = Monthly"
    "price (monthlyTwelfthVariants ! 2) = price (defaultVariants ! 2) / 12"
    by (simp_all add: defaultVariants_def monthlyTwelfthVariants_def)
  have same: "lookupAssumptions defaultAssumptions (defaultVariants ! 2)
      = lookupAssumptions defaultAssumptions (monthlyTwelfthVariants ! 2)"
    by (simp add: lookupAssumptions_def defaultVariants_def monthlyTwelfthVariants_def
        defaultAssumptions_def)
  from twelfth_price_exact[OF len refl _ _ cyc, of defaultAssumptions] same len cyc
  show ?thesis by simp
qed

text \<open>
  The same two variants in doubles, at a traffic of 25000, a split of 33 and a rate of
  3.6, operation by operation.
\<close>

lemma twelfth_steps:
  "rounded binary64 (js_div (Fin 33) (Fin 100)) = Fin (5944751508129055 / 2 ^ 54)"
  "rounded binary64 (js_mul (Fin 25000) (Fin (5944751508129055 / 2 ^ 54))) = Fin 8250"
  "rounded binary64 (js_div (Fin (8106479329266893 / 2 ^ 51)) (Fin 100))
     = Fin (1297036692682703 / 2 ^ 55)"
  "rounded binary64 (js_mul (Fin 8250) (Fin (1297036692682703 / 2 ^ 55)))
     = Fin (5224879255191553 / 2 ^ 44)"
  "rounded binary64 (js_mul (Fin (5224879255191553 / 2 ^ 44)) (Fin 1200))
     = Fin (6122905377177601 / 2 ^ 34)"
  "rounded binary64 (js_div (Fin (6122905377177601 / 2 ^ 34)) (Fin 12))
     = Fin (8163873836236801 / 2 ^ 38)"
  "rounded binary64 (js_mul (Fin (5224879255191553 / 2 ^ 44)) (Fin 100))
     = Fin (4081936918118401 / 2 ^ 37)"
  "rounded binary64 (js_div (Fin (8163873836236801 / 2 ^ 38)) (Fin 8250))
     = Fin (4053239664633447 / 2 ^ 50)"
  "rounded binary64 (js_div (Fin (4081936918118401 / 2 ^ 37)) (Fin 8250))
     = Fin (8106479329266895 / 2 ^ 51)"
  "rounded binary64 (js_div (Fin 1200) (Fin 12)) = Fin 100"
  by (simp_all add: rounded_def double_eval)

lemma twelfth_numbers:
  "variantNumbers binary64 twelfthAssumptions annual1200 =
     \<lparr>addend = Fin 33, visitorsN = Fin 8250,
      conversionsN = Fin (5224879255191553 / 2 ^ 44),
      revenueN = Fin (8163873836236801 / 2 ^ 38), arpuN = Fin 100,
      rpvN = Fin (4053239664633447 / 2 ^ 50)\<rparr>"
  "variantNumbers binary64 twelfthAssumptions monthly100 =
     \<lparr>addend = Fin 33, visitorsN = Fin 8250,
      conversionsN = Fin (5224879255191553 / 2 ^ 44),
      revenueN = Fin (4081936918118401 / 2 ^ 37), arpuN = Fin 100,
      rpvN = Fin (8106479329266895 / 2 ^ 51)\<rparr>"
  unfolding variantNumbers_def twelfthAssumptions_def annual1200_def monthly100_def
    nearest_double_rate
  by (simp_all add: getProperty_def numberField_def js_gt_def twelfth_steps
      del: power_numeral js_mul.simps js_div.simps)

text \<open>
  Claim C8, as stated: a variant priced \<open>P\<close> on an Annual cycle has exactly the revenue,
  arpu and rpv of a variant priced \<open>P / 12\<close> on a Monthly cycle under the same
  assumptions. At a traffic of 25000, a split of 33 and a rate of 3.6 the variant priced
  1200 a year has the revenue \<open>29700 + 2^-38\<close> and the one priced 100 a month
  \<open>29700 + 2^-37\<close>, and their rpv differ by \<open>2^-51\<close>: the products \<open>c * 1200 / 12\<close> and
  \<open>c * 100\<close> are rounded at different places.
\<close>

theorem twelfth_price_rounding_counterexample:
  "billingCycle annual1200 = Annual \<and> billingCycle monthly100 = Monthly \<and>
   price monthly100 = price annual1200 / 12 \<and>
   addend (variantNumbers binary64 twelfthAssumptions annual1200)
     = addend (variantNumbers binary64 twelfthAssumptions monthly100) \<and>
   conversionsN (variantNumbers binary64 twelfthAssumptions annual1200)
     = conversionsN (variantNumbers binary64 twelfthAssumptions monthly100) \<and>
   revenueN (variantNumbers binary64 twelfthAssumptions annual1200) = Fin (29700 + 1 / 2 ^ 38) \<and>
   revenueN (variantNumbers binary64 twelfthAssumptions monthly100) = Fin (29700 + 2 / 2 ^ 38) \<and>
   revenueN (variantNumbers binary64 twelfthAssumptions annual1200)
     \<noteq> revenueN (variantNumbers binary64 twelfthAssumptions monthly100) \<and>
   rpvN (variantNumbers binary64 twelfthAssumptions annual1200)
     \<noteq> rpvN (variantNumbers binary64 twelfthAssumptions monthly100) \<and>
   rpvN (variantNumbers binary64 twelfthAssumptions annual1200)
     = Fin (8106479329266894 / 2 ^ 51) \<and>
   rpvN (variantNumbers binary64 twelfthAssumptions monthly100)
     = Fin (8106479329266895 / 2 ^ 51)"
  unfolding twelfth_numbers by (simp add: annual1200_def monthly100_def)

text \<open>
  Claim C8, amended. For every traffic, split and rate, a variant priced \<open>P\<close> on an
  Annual cycle and a variant on a Monthly cycle whose price is the twelfth of \<open>P\<close>, as
  the arithmetic \<open>rnd\<close> of the engine computes it, have the same visitors, conversions and
  arpu under the same assumptions, whatever the rounding \<open>rnd\<close> is; when the arithmetic is
  exact they have the same revenue and the same rpv as well.
\<close>

theorem annual_normalization:
  assumes "monthlyTraffic a = monthlyTraffic b"
    and "numberField trafficSplit (getProperty a (id_v v))
           = numberField trafficSplit (getProperty b (id_v w))"
    and "numberField convRate (getProperty a (id_v v))
           = numberField convRate (getProperty b (id_v w))"
    and "billingCycle v = Annual" and "billingCycle w = Monthly"
    and "rnd (price v / 12) = Fin (price w)"
  shows "visitorsN (variantNumbers rnd a v) = visitorsN (variantNumbers rnd b w) \<and>
         conversionsN (variantNumbers rnd a v) = conversionsN (variantNumbers rnd b w) \<and>
         arpuN (variantNumbers rnd a v) = arpuN (variantNumbers rnd b w) \<and>
         (rnd = Fin \<longrightarrow>
            revenueN (variantNumbers rnd a v) = revenueN (variantNumbers rnd b w) \<and>
            rpvN (variantNumbers rnd a v) = rpvN (variantNumbers rnd b w))"
proof -
  define vis where "vis = visitorsN (variantNumbers rnd a v)"
  define con where "con = conversionsN (variantNumbers rnd a v)"
  have vis: "visitorsN (variantNumbers rnd b w) = vis"
    unfolding vis_def using assms(1,2) by (simp add: variantNumbers_def Let_def)
  have con: "conversionsN (variantNumbers rnd b w) = con"
    unfolding con_def using assms(1,2,3) by (simp add: variantNumbers_def Let_def)
  have arpu_a: "arpuN (variantNumbers rnd a v) =
      (if js_gt con (Fin 0) then Fin (price w) else Fin 0)"
    unfolding con_def using assms(4,6) by (simp add: variantNumbers_def Let_def rounded_def)
  have arpu_b: "arpuN (variantNumbers rnd b w) =
      (if js_gt con (Fin 0) then Fin (price w) else Fin 0)"
    unfolding con[symmetric] using assms(5) by (simp add: variantNumbers_def Let_def)
  have exact: "revenueN (variantNumbers rnd a v) = revenueN (variantNumbers rnd b w) \<and>
       rpvN (variantNumbers rnd a v) = rpvN (variantNumbers rnd b w)" if "rnd = Fin"
  proof -
    from assms(6) that have p: "price w = price v / 12" by simp
    have ra: "revenueN (variantNumbers Fin a v) = js_div (js_mul con (Fin (price v))) (Fin 12)"
      using assms(4) that by (simp add: con_def variantNumbers_def Let_def rounded_Fin)
    have rb: "revenueN (variantNumbers Fin b w) = js_mul con (Fin (price w))"
      using assms(5) con that by (simp add: variantNumbers_def Let_def rounded_Fin)
    have "js_div (js_mul con (Fin (price v))) (Fin 12) = js_mul con (Fin (price v / 12))"
      by (cases con) (simp_all add: js_inf_of_sign_def)
    with ra rb p have rev: "revenueN (variantNumbers Fin a v) = revenueN (variantNumbers Fin b w)"
      by simp
    have "rpvN (variantNumbers Fin a v) =
        (if js_gt vis (Fin 0) then js_div (revenueN (variantNumbers Fin a v)) vis else Fin 0)"
      using that by (simp add: vis_def variantNumbers_def Let_def rounded_Fin)
    moreover have "rpvN (variantNumbers Fin b w) =
        (if js_gt vis (Fin 0) then js_div (revenueN (variantNumbers Fin b w)) vis else Fin 0)"
      using that vis by (simp add: variantNumbers_def Let_def rounded_Fin)
    ultimately show ?thesis using rev that by simp
  qed
  from vis con arpu_a arpu_b exact show ?thesis
    by (simp add: vis_def con_def)
qed

theorem annual_normalization_witness:
  "binary64 (price annual1200 / 12) = Fin (price monthly100) \<and>
   arpuN (variantNumbers binary64 twelfthAssumptions annual1200) = Fin 100 \<and>
   arpuN (variantNumbers binary64 twelfthAssumptions monthly100) = Fin 100 \<and>
   revenueN (variantNumbers Fin twelfthAssumptions annual1200)
     = revenueN (variantNumbers Fin twelfthAssumptions monthly100) \<and>
   rpvN (variantNumbers Fin twelfthAssumptions annual1200)
     = rpvN (variantNumbers Fin twelfthAssumptions monthly100)"
proof -
  have same: "numberField trafficSplit (getProperty twelfthAssumptions (id_v annual1200))
           = numberField trafficSplit (getProperty twelfthAssumptions (id_v monthly100))"
    "numberField convRate (getProperty twelfthAssumptions (id_v annual1200))
           = numberField convRate (getProperty twelfthAssumptions (id_v monthly100))"
    by (simp_all add: getProperty_def numberField_def twelfthAssumptions_def annual1200_def
        monthly100_def)
  have cyc: "billingCycle annual1200 = Annual" "billingCycle monthly100 = Monthly"
    by (simp_all add: annual1200_def monthly100_def)
  have p64: "binary64 (price annual1200 / 12) = Fin (price monthly100)"
    using binary64_twelfth by (simp add: annual1200_def monthly100_def)
  have pex: "Fin (price annual1200 / 12) = Fin (price monthly100)"
    by (simp add: annual1200_def monthly100_def)
  have m: "arpuN (variantNumbers binary64 twelfthAssumptions monthly100) = Fin 100"
    by (simp add: twelfth_numbers)
  from annual_normalization[where rnd = binary64 and a = twelfthAssumptions
        and b = twelfthAssumptions, OF refl same cyc p64]
    annual_normalization[where rnd = Fin and a = twelfthAssumptions
        and b = twelfthAssumptions, OF refl same cyc pex]
    p64 m
  show ?thesis by simp
qed

text \<open>
  How far apart the two revenues can be in doubles: the four roundings on the way, two on
  each side, move them apart by at most the \<open>2^-50\<close>-th part of the exact revenue, as long
  as no intermediate result is below \<open>2^-1022\<close> in magnitude or rounds to an infinity.
\<close>

lemma twelfth_rounding_bound:
  assumes n1: "1 / 2 ^ 1022 \<le> \<bar>c * P\<bar>"
    and n2: "1 / 2 ^ 1022 \<le> \<bar>nearest_double (c * P) / 12\<bar>"
    and n3: "1 / 2 ^ 1022 \<le> \<bar>P / 12\<bar>"
    and n4: "1 / 2 ^ 1022 \<le> \<bar>c * nearest_double (P / 12)\<bar>"
  shows "\<bar>nearest_double (nearest_double (c * P) / 12) - nearest_double (c * nearest_double (P / 12))\<bar>
           \<le> \<bar>c * P / 12\<bar> / 2 ^ 50"
proof -
  define T where "T = \<bar>c * P / 12\<bar>"
  define y where "y = nearest_double (c * P)"
  define p where "p = nearest_double (P / 12)"
  define A where "A = nearest_double (y / 12)"
  define B where "B = nearest_double (c * p)"
  have T0: "0 \<le> T" by (simp add: T_def)
  have "\<bar>y - c * P\<bar> \<le> \<bar>c * P\<bar> / 2 ^ 53"
    unfolding y_def by (rule nearest_double_error[OF n1])
  then have d: "\<bar>y - c * P\<bar> / 12 \<le> \<bar>c * P\<bar> / 2 ^ 53 / 12" by (rule divide_right_mono) simp
  have l1: "\<bar>y - c * P\<bar> / 12 = \<bar>y / 12 - c * P / 12\<bar>" by (simp add: abs_if field_simps)
  have r1: "\<bar>c * P\<bar> / 2 ^ 53 / 12 = T / 2 ^ 53" by (simp add: T_def)
  from d have s1: "\<bar>y / 12 - c * P / 12\<bar> \<le> T / 2 ^ 53" unfolding l1 r1 .
  have "\<bar>y / 12\<bar> \<le> \<bar>y / 12 - c * P / 12\<bar> + \<bar>c * P / 12\<bar>" by linarith
  with s1 have s2: "\<bar>y / 12\<bar> \<le> T + T / 2 ^ 53" unfolding T_def by linarith
  have "\<bar>A - y / 12\<bar> \<le> \<bar>y / 12\<bar> / 2 ^ 53"
    unfolding A_def by (rule nearest_double_error) (use n2 in \<open>simp add: y_def\<close>)
  moreover from s2 have "\<bar>y / 12\<bar> / 2 ^ 53 \<le> (T + T / 2 ^ 53) / 2 ^ 53"
    by (rule divide_right_mono) simp
  ultimately have s3: "\<bar>A - y / 12\<bar> \<le> (T + T / 2 ^ 53) / 2 ^ 53" by linarith
  have "\<bar>p - P / 12\<bar> \<le> \<bar>P / 12\<bar> / 2 ^ 53"
    unfolding p_def by (rule nearest_double_error[OF n3])
  then have m: "\<bar>c\<bar> * \<bar>p - P / 12\<bar> \<le> \<bar>c\<bar> * (\<bar>P / 12\<bar> / 2 ^ 53)"
    by (rule mult_left_mono) simp
  have l: "\<bar>c\<bar> * \<bar>p - P / 12\<bar> = \<bar>c * p - c * P / 12\<bar>"
    by (simp add: abs_mult [symmetric] algebra_simps)
  have r: "\<bar>c\<bar> * (\<bar>P / 12\<bar> / 2 ^ 53) = T / 2 ^ 53"
    by (simp add: T_def abs_mult)
  from m have s4: "\<bar>c * p - c * P / 12\<bar> \<le> T / 2 ^ 53" unfolding l r .
  have "\<bar>c * p\<bar> \<le> \<bar>c * p - c * P / 12\<bar> + \<bar>c * P / 12\<bar>" by linarith
  with s4 have s5: "\<bar>c * p\<bar> \<le> T + T / 2 ^ 53" unfolding T_def by linarith
  have "\<bar>B - c * p\<bar> \<le> \<bar>c * p\<bar> / 2 ^ 53"
    unfolding B_def by (rule nearest_double_error) (use n4 in \<open>simp add: p_def\<close>)
  moreover from s5 have "\<bar>c * p\<bar> / 2 ^ 53 \<le> (T + T / 2 ^ 53) / 2 ^ 53"
    by (rule divide_right_mono) simp
  ultimately have s6: "\<bar>B - c * p\<bar> \<le> (T + T / 2 ^ 53) / 2 ^ 53" by linarith
  have "\<bar>A - B\<bar> \<le> \<bar>A - y / 12\<bar> + \<bar>y / 12 - c * P / 12\<bar> + \<bar>c * p - c * P / 12\<bar> + \<bar>B - c * p\<bar>"
    by linarith
  with s1 s3 s4 s6 have "\<bar>A - B\<bar> \<le> 2 * (T / 2 ^ 53) + 2 * ((T + T / 2 ^ 53) / 2 ^ 53)"
    by linarith
  also have "\<dots> \<le> T / 2 ^ 50" using T0 by (simp add: field_simps)
  finally show ?thesis unfolding A_def B_def y_def p_def T_def .
qed

lemma revenueN_variantNumbers:
  "revenueN (variantNumbers rnd a v) =
     (if billingCycle v = Annual
      then rounded rnd (js_div (rounded rnd (js_mul (conversionsN (variantNumbers rnd a v))
                                                    (Fin (price v)))) (Fin 12))
      else rounded rnd (js_mul (conversionsN (variantNumbers rnd a v)) (Fin (price v))))"
  by (simp add: variantNumbers_def Let_def)

lemma annual_revenue_rounding:
  assumes cyc: "billingCycle v = Annual" "billingCycle w = Monthly"
    and twelfth: "binary64 (price v / 12) = Fin (price w)"
    and conv: "conversionsN (variantNumbers binary64 a v) = Fin c"
      "conversionsN (variantNumbers binary64 b w) = Fin c"
    and rev: "revenueN (variantNumbers binary64 a v) = Fin ra"
      "revenueN (variantNumbers binary64 b w) = Fin rb"
    and normal: "1 / 2 ^ 1022 \<le> \<bar>c * price v\<bar>"
      "1 / 2 ^ 1022 \<le> \<bar>nearest_double (c * price v) / 12\<bar>"
      "1 / 2 ^ 1022 \<le> \<bar>price v / 12\<bar>"
      "1 / 2 ^ 1022 \<le> \<bar>c * price w\<bar>"
  shows "\<bar>ra - rb\<bar> \<le> \<bar>c * price v / 12\<bar> / 2 ^ 50"
proof -
  from twelfth have p: "price w = nearest_double (price v / 12)" by (rule binary64_FinD)
  from rev(2) cyc(2) conv(2) have "binary64 (c * price w) = Fin rb"
    by (simp add: revenueN_variantNumbers rounded_def)
  then have rb: "rb = nearest_double (c * nearest_double (price v / 12))"
    unfolding p by (rule binary64_FinD)
  from rev(1) cyc(1) conv(1)
  have ann: "rounded binary64 (js_div (binary64 (c * price v)) (Fin 12)) = Fin ra"
    by (simp add: revenueN_variantNumbers rounded_def)
  have ra: "ra = nearest_double (nearest_double (c * price v) / 12)"
  proof (cases "binary64 (c * price v)")
    case (Fin y)
    then have y: "y = nearest_double (c * price v)" by (rule binary64_FinD)
    from ann Fin have "binary64 (y / 12) = Fin ra" by (simp add: rounded_def)
    then show ?thesis unfolding y by (rule binary64_FinD)
  next
    case PosInf
    with ann show ?thesis by (simp add: rounded_def)
  next
    case NegInf
    with ann show ?thesis by (simp add: rounded_def)
  next
    case NaN
    with ann show ?thesis by (simp add: rounded_def)
  qed
  from normal(4) have n4: "1 / 2 ^ 1022 \<le> \<bar>c * nearest_double (price v / 12)\<bar>"
    unfolding p .
  show ?thesis unfolding ra rb
    by (rule twelfth_rounding_bound[OF normal(1) normal(2) normal(3) n4])
qed

lemma annual_revenue_rounding_example:
  "\<bar>(29700 + 1 / 2 ^ 38) - (29700 + 2 / 2 ^ 38)\<bar>
     \<le> \<bar>5224879255191553 / 2 ^ 44 * price annual1200 / 12\<bar> / (2 ^ 50 :: real)"
proof -
  have cyc: "billingCycle annual1200 = Annual" "billingCycle monthly100 = Monthly"
    by (simp_all add: annual1200_def monthly100_def)
  have p64: "binary64 (price annual1200 / 12) = Fin (price monthly100)"
    using binary64_twelfth by (simp add: annual1200_def monthly100_def)
  have y: "nearest_double (5224879255191553 / 2 ^ 44 * price annual1200)
      = 6122905377177601 / 2 ^ 34"
    by (simp add: annual1200_def double_eval)
  have n: "(1::real) / 2 ^ 1022 \<le> \<bar>5224879255191553 / 2 ^ 44 * price annual1200\<bar>"
    "(1::real) / 2 ^ 1022 \<le> \<bar>nearest_double (5224879255191553 / 2 ^ 44 * price annual1200) / 12\<bar>"
    "(1::real) / 2 ^ 1022 \<le> \<bar>price annual1200 / 12\<bar>"
    "(1::real) / 2 ^ 1022 \<le> \<bar>5224879255191553 / 2 ^ 44 * price monthly100\<bar>"
    unfolding y by (simp_all add: annual1200_def monthly100_def)
  have "\<bar>(8163873836236801 / 2 ^ 38) - (4081936918118401 / 2 ^ 37)\<bar>
     \<le> \<bar>5224879255191553 / 2 ^ 44 * price annual1200 / 12\<bar> / (2 ^ 50 :: real)"
    by (rule annual_revenue_rounding[OF cyc p64 _ _ _ _ n, where a = twelfthAssumptions
          and b = twelfthAssumptions])
       (simp_all add: twelfth_numbers)
  then show ?thesis by simp
qed

end
